theory Spec2Isabelle
  imports Complex_Main "HOL-Library.Monad_Syntax"
begin

section \<open>Coupling matrix (Auxiliary\_functions.make\_matrix\_coupl)\<close>

text \<open>
  The coupling matrix is a numpy integer array with one row per node and one column per
  pipe. It is modelled as a list of rows. Indexing a numpy array out of range raises
  IndexError; the node indices stored in \<open>line.node_start\<close> and \<open>line.node_end\<close> are
  produced by \<open>range\<close> and hence never negative, so they are natural numbers.
\<close>

type_synonym matrix = "int list list"

datatype py_error =
  IndexError | TypeError | NameError | ValueError | ZeroDivisionError | SystemExit | Exception

definition zeros :: "nat \<Rightarrow> nat \<Rightarrow> matrix" where
  "zeros n m = replicate n (replicate m 0)"

definition set_entry :: "matrix \<Rightarrow> nat \<Rightarrow> nat \<Rightarrow> int \<Rightarrow> py_error + matrix" where
  "set_entry M i j v =
     (if i < length M \<and> j < length (M ! i) then Inr (M[i := (M ! i)[j := v]])
      else Inl IndexError)"

text \<open>
  The loop \<open>for x_line in range(0, line.nbr_matrix.shape[0])\<close> of make\_matrix\_coupl:
  first the start node's entry is set to 1, then the end node's entry to -1.
\<close>

fun fill_coupl :: "nat list \<Rightarrow> nat list \<Rightarrow> nat list \<Rightarrow> matrix \<Rightarrow> py_error + matrix" where
  "fill_coupl node_start node_end [] M = Inr M"
| "fill_coupl node_start node_end (x_line # rest) M =
     (if x_line < length node_start then
        (case set_entry M (node_start ! x_line) x_line 1 of
           Inl e \<Rightarrow> Inl e
         | Inr M1 \<Rightarrow>
             (if x_line < length node_end then
                (case set_entry M1 (node_end ! x_line) x_line (- 1) of
                   Inl e \<Rightarrow> Inl e
                 | Inr M2 \<Rightarrow> fill_coupl node_start node_end rest M2)
              else Inl IndexError))
      else Inl IndexError)"

definition make_matrix_coupl :: "nat \<Rightarrow> nat \<Rightarrow> nat list \<Rightarrow> nat list \<Rightarrow> py_error + matrix" where
  "make_matrix_coupl n_nodes n_lines node_start node_end =
     fill_coupl node_start node_end [0..<n_lines] (zeros n_nodes n_lines)"

text \<open>
  The inner loop of the direction check in solve\_network\_hydr: for every node, an entry 1
  of the pipe's column becomes -1 and an entry -1 becomes 1. Every iteration touches
  another row, so the loop is a map over the rows.
\<close>

definition flip_entry :: "int \<Rightarrow> int" where
  "flip_entry v = (if v = 1 then - 1 else if v = - 1 then 1 else v)"

definition flip_column :: "matrix \<Rightarrow> nat \<Rightarrow> matrix" where
  "flip_column M x_line = map (\<lambda>row. row[x_line := flip_entry (row ! x_line)]) M"

text \<open>The tolerance test \<open>line.m_int[x_line] < -1e-10\<close>.\<close>

definition wrong_direction :: "real list \<Rightarrow> nat \<Rightarrow> bool" where
  "wrong_direction m_int x_line = (m_int ! x_line < - (1 / 10 ^ 10))"

text \<open>
  The scan \<open>for x_line in range(0, line.nbr_matrix.shape[0])\<close> after a solve: it counts
  the pipes with a negative mass flow and flips their columns.
\<close>

fun check_flow_directions :: "real list \<Rightarrow> nat list \<Rightarrow> nat \<times> matrix \<Rightarrow> nat \<times> matrix" where
  "check_flow_directions m_int [] (cntr, M) = (cntr, M)"
| "check_flow_directions m_int (x_line # rest) (cntr, M) =
     (if wrong_direction m_int x_line
      then check_flow_directions m_int rest (cntr + 1, flip_column M x_line)
      else check_flow_directions m_int rest (cntr, M))"

text \<open>\<open>var_sim.matrix_coupl_return = var_sim.matrix_coupl_forerun*(-1)\<close>\<close>

definition matrix_neg :: "matrix \<Rightarrow> matrix" where
  "matrix_neg M = map (map uminus) M"

definition column :: "matrix \<Rightarrow> nat \<Rightarrow> int list" where
  "column M x_line = map (\<lambda>row. row ! x_line) M"

definition is_matrix :: "nat \<Rightarrow> nat \<Rightarrow> matrix \<Rightarrow> bool" where
  "is_matrix n m M = (length M = n \<and> list_all (\<lambda>row. length row = m) M)"

text \<open>A column with exactly one entry 1, exactly one entry -1 and zeros elsewhere.\<close>

definition column_ok :: "int list \<Rightarrow> bool" where
  "column_ok c = (count_list c 1 = 1 \<and> count_list c (- 1) = 1 \<and>
                  list_all (\<lambda>v. v = 1 \<or> v = 0 \<or> v = - 1) c)"

section \<open>Hydraulic equation system (hydraulic\_equ\_system)\<close>

subsection \<open>equ\_network\_forerun and equ\_network\_return\<close>

text \<open>
  Python floats are modelled as real numbers. The arrays \<open>node.p_ref_forerun\<close>,
  \<open>node.m_ext_forerun_check\<close>, \<open>node.p_forerun\<close> and \<open>node.m_ext_forerun\<close> hold
  \<open>None\<close> where no value is given, so they are lists of optional reals. The record fields
  carry the name of the object they belong to as a prefix (\<open>line.m_int_forerun\<close> is
  \<open>line_m_int\<close>); one model serves the forerun and the return arrays.

  The block START VALUES FOR UNKNOWNS copies the solver's vector into the pipe mass flows,
  then into the pressure of every node without reference pressure, then into the external
  mass flow of every node whose check entry is \<open>None\<close>. Reading the vector out of range
  raises IndexError; equ\_network\_forerun catches it in the last loop (\<open>try/except\<close>, the
  counter still advances), equ\_network\_return does not.
\<close>

fun start_values :: "bool \<Rightarrow> real list \<Rightarrow> real option list \<Rightarrow> nat list \<Rightarrow>
    nat \<times> real option list \<Rightarrow> py_error + (nat \<times> real option list)" where
  "start_values catch start_variables check [] (cntr_var, vals) = Inr (cntr_var, vals)"
| "start_values catch start_variables check (x_node # rest) (cntr_var, vals) =
     (if check ! x_node = None then
        (if cntr_var < length start_variables then
           start_values catch start_variables check rest
             (cntr_var + 1, vals[x_node := Some (start_variables ! cntr_var)])
         else if catch then start_values catch start_variables check rest (cntr_var + 1, vals)
         else Inl IndexError)
      else start_values catch start_variables check rest (cntr_var, vals))"

record hydr_unknowns =
  line_m_int :: "real list"
  node_p :: "real option list"
  node_m_ext :: "real option list"

record hydr_node =
  node_p_ref :: "real option list"
  node_p_start :: "real option list"
  node_m_ext_check :: "real option list"
  node_m_ext_start :: "real option list"
  node_h_coord :: "real list"

record hydr_line =
  line_l :: "real list"
  line_dia :: "real list"
  line_lambd :: "real list"
  line_zeta :: "real list"

definition set_start_values :: "bool \<Rightarrow> nat \<Rightarrow> nat \<Rightarrow> real list \<Rightarrow> hydr_node \<Rightarrow>
    py_error + hydr_unknowns" where
  "set_start_values catch n_nodes n_lines start_variables node =
     (if n_lines = 0 then Inl NameError
      else if length start_variables < n_lines then Inl IndexError
      else
        (case start_values False start_variables (node_p_ref node) [0..<n_nodes]
                (n_lines, node_p_start node) of
           Inl e \<Rightarrow> Inl e
         | Inr (cntr_var, p') \<Rightarrow>
            (case start_values catch start_variables (node_m_ext_check node)
                    [0..<length (node_m_ext_start node)] (cntr_var, node_m_ext_start node) of
               Inl e \<Rightarrow> Inl e
             | Inr (cntr_var', m_ext') \<Rightarrow>
                 Inr \<lparr>line_m_int = take n_lines start_variables, node_p = p', node_m_ext = m_ext'\<rparr>)))"

text \<open>
  CONTINUITY EQUATION FOR EACH NODE: the inner loop adds
  \<open>matrix_coupl[x_node, x_line] * m_int[x_line]\<close> for every nonzero entry of the node's row.
\<close>

fun continuity_sum :: "int list \<Rightarrow> real list \<Rightarrow> nat list \<Rightarrow> real \<Rightarrow> real" where
  "continuity_sum row m_int_v [] equ = equ"
| "continuity_sum row m_int_v (x_line # rest) equ =
     (if row ! x_line \<noteq> 0
      then continuity_sum row m_int_v rest (equ + real_of_int (row ! x_line) * m_int_v ! x_line)
      else continuity_sum row m_int_v rest equ)"

text \<open>
  After the inner loop the external mass flow is subtracted unless it equals 0. An entry that
  is still \<open>None\<close> is different from 0 in Python, and subtracting it raises TypeError.
\<close>

definition continuity_equ :: "matrix \<Rightarrow> nat \<Rightarrow> hydr_unknowns \<Rightarrow> nat \<Rightarrow> py_error + real" where
  "continuity_equ M n_lines u x_node =
     (let equ = continuity_sum (M ! x_node) (line_m_int u) [0..<n_lines] 0 in
      case node_m_ext u ! x_node of
        None \<Rightarrow> Inl TypeError
      | Some m \<Rightarrow> if m \<noteq> 0 then Inr (equ - m) else Inr equ)"

text \<open>
  PRESSURE EQUATION FOR EACH LINE: the signed sum of the node pressures with their
  hydrostatic term, minus the friction loss of the pipe.
\<close>

fun pressure_sum :: "matrix \<Rightarrow> nat \<Rightarrow> real option list \<Rightarrow> real list \<Rightarrow> real \<Rightarrow> real \<Rightarrow>
    nat list \<Rightarrow> real \<Rightarrow> py_error + real" where
  "pressure_sum M x_line pv h rho g [] equ = Inr equ"
| "pressure_sum M x_line pv h rho g (x_node # rest) equ =
     (if M ! x_node ! x_line \<noteq> 0 then
        (case pv ! x_node of
           None \<Rightarrow> Inl TypeError
         | Some pn \<Rightarrow> pressure_sum M x_line pv h rho g rest
             (equ + real_of_int (M ! x_node ! x_line) * (pn + rho * g * h ! x_node)))
      else pressure_sum M x_line pv h rho g rest equ)"

definition pressure_equ :: "matrix \<Rightarrow> nat \<Rightarrow> hydr_unknowns \<Rightarrow> hydr_node \<Rightarrow> hydr_line \<Rightarrow>
    real \<Rightarrow> real \<Rightarrow> nat \<Rightarrow> py_error + real" where
  "pressure_equ M n_nodes u node line rho g x_line =
     (case pressure_sum M x_line (node_p u) (node_h_coord node) rho g [0..<n_nodes] 0 of
        Inl e \<Rightarrow> Inl e
      | Inr equ \<Rightarrow>
          Inr (equ - ((8 * (line_m_int u ! x_line) ^ 2) / ((line_dia line ! x_line) ^ 4 * pi ^ 2 * rho))
                 * (line_lambd line ! x_line * (line_l line ! x_line / line_dia line ! x_line)
                    + line_zeta line ! x_line)))"

text \<open>Collecting the residuals of a loop; the first exception ends the evaluation.\<close>

fun collect :: "(nat \<Rightarrow> py_error + real) \<Rightarrow> nat list \<Rightarrow> py_error + real list" where
  "collect f [] = Inr []"
| "collect f (x # xs) =
     (case f x of
        Inl e \<Rightarrow> Inl e
      | Inr r \<Rightarrow> (case collect f xs of Inl e \<Rightarrow> Inl e | Inr rs \<Rightarrow> Inr (r # rs)))"

definition equ_network :: "bool \<Rightarrow> matrix \<Rightarrow> nat \<Rightarrow> nat \<Rightarrow> real list \<Rightarrow> hydr_node \<Rightarrow>
    hydr_line \<Rightarrow> real \<Rightarrow> real \<Rightarrow> py_error + real list" where
  "equ_network catch M n_nodes n_lines start_variables node line rho g =
     (case set_start_values catch n_nodes n_lines start_variables node of
        Inl e \<Rightarrow> Inl e
      | Inr u \<Rightarrow>
         (case collect (continuity_equ M n_lines u) [0..<n_nodes] of
            Inl e \<Rightarrow> Inl e
          | Inr cont \<Rightarrow>
             (case collect (pressure_equ M n_nodes u node line rho g) [0..<n_lines] of
                Inl e \<Rightarrow> Inl e
              | Inr pres \<Rightarrow> Inr (cont @ pres))))"

text \<open>
  equ\_network\_forerun works on \<open>var_sim.matrix_coupl_forerun\<close> and the forerun arrays,
  equ\_network\_return on \<open>var_sim.matrix_coupl_return\<close> and the return arrays; apart from
  the \<open>try/except\<close> the two functions compute the same residuals.
\<close>

definition equ_network_forerun :: "matrix \<Rightarrow> nat \<Rightarrow> nat \<Rightarrow> real list \<Rightarrow> hydr_node \<Rightarrow>
    hydr_line \<Rightarrow> real \<Rightarrow> real \<Rightarrow> py_error + real list" where
  "equ_network_forerun matrix_coupl_forerun = equ_network True matrix_coupl_forerun"

definition equ_network_return :: "matrix \<Rightarrow> nat \<Rightarrow> nat \<Rightarrow> real list \<Rightarrow> hydr_node \<Rightarrow>
    hydr_line \<Rightarrow> real \<Rightarrow> real \<Rightarrow> py_error + real list" where
  "equ_network_return matrix_coupl_return = equ_network False matrix_coupl_return"

text \<open>The signed sum of the mass flows of the pipes at a node, per the coupling matrix.\<close>

definition signed_sum :: "matrix \<Rightarrow> nat \<Rightarrow> real list \<Rightarrow> nat \<Rightarrow> real" where
  "signed_sum M n_lines m_int_v x_node =
     (\<Sum>x_line \<leftarrow> [0..<n_lines]. real_of_int (M ! x_node ! x_line) * m_int_v ! x_line)"

subsection \<open>solve\_network\_hydr\<close>

text \<open>
  \<open>opt.fsolve\<close> is scipy's root finder. It is called with the same start vector
  \<open>var_sim.input_solver_hydr_forerun\<close> in every iteration and evaluates the residual
  function, which depends on the coupling matrix; the pipe mass flows that the call leaves in
  \<open>line.m_int_forerun\<close> are therefore a function of the current coupling matrix. That
  function is the parameter \<open>fsolve\<close>.

  The \<open>while cntr_wrong_direction > 0\<close> loop has no other exit and the function raises no
  exception of its own; a run that never leaves the loop is the value \<open>None\<close>.
\<close>

partial_function (option) direction_loop ::
    "(matrix \<Rightarrow> real list) \<Rightarrow> nat \<Rightarrow> matrix \<Rightarrow> (matrix \<times> real list) option" where
  "direction_loop fsolve n_lines M =
     (case check_flow_directions (fsolve M) [0..<n_lines] (0, M) of
        (cntr_wrong_direction, M') \<Rightarrow>
          if cntr_wrong_direction > 0 then direction_loop fsolve n_lines M'
          else Some (M', fsolve M))"

record hydr_result =
  matrix_coupl_forerun :: matrix
  matrix_coupl_return :: matrix
  m_int_forerun :: "real list"
  m_int_return :: "real list"

definition solve_network_hydr ::
    "(matrix \<Rightarrow> real list) \<Rightarrow> (matrix \<Rightarrow> real list) \<Rightarrow> nat \<Rightarrow> matrix \<Rightarrow> hydr_result option" where
  "solve_network_hydr fsolve_forerun fsolve_return n_lines M =
     (case direction_loop fsolve_forerun n_lines M of
        None \<Rightarrow> None
      | Some (Mf, mf) \<Rightarrow>
         (case direction_loop fsolve_return n_lines (matrix_neg Mf) of
            None \<Rightarrow> None
          | Some (Mr, mr) \<Rightarrow>
              Some \<lparr>matrix_coupl_forerun = Mf, matrix_coupl_return = Mr,
                    m_int_forerun = mf, m_int_return = mr\<rparr>))"

text \<open>One round of the loop: solve, scan, flip. \<open>flip_rounds k\<close> is the matrix after k rounds.\<close>

definition flip_step :: "(matrix \<Rightarrow> real list) \<Rightarrow> nat \<Rightarrow> matrix \<Rightarrow> matrix" where
  "flip_step fsolve n_lines M = snd (check_flow_directions (fsolve M) [0..<n_lines] (0, M))"

definition flip_rounds :: "(matrix \<Rightarrow> real list) \<Rightarrow> nat \<Rightarrow> nat \<Rightarrow> matrix \<Rightarrow> matrix" where
  "flip_rounds fsolve n_lines k M = (flip_step fsolve n_lines ^^ k) M"

definition any_wrong :: "nat \<Rightarrow> real list \<Rightarrow> bool" where
  "any_wrong n_lines m_int_v = list_ex (wrong_direction m_int_v) [0..<n_lines]"


section \<open>Reading the topology and the sanity check (fcns\_read, main\_program)\<close>

text \<open>
  A row of the sheet "Knoten", reduced to the cells that decide the control flow of
  read\_grid\_setup: column 2 (the row is read only if it holds "ja"), column 7 ("x" flags
  the reference pressure node), column 8 (the feeder's identifier, \<open>None\<close> if the cell is
  empty) and column 23 ("x" flags the gapfilling node). The other cells are taken to be well
  formed (a node number that is no Roman numeral would raise while the row is read).
\<close>

record knoten_row =
  row_active :: bool
  row_p_ref :: bool
  row_feed_in :: "string option"
  row_gapfilling :: bool

record node_setup =
  nbr_matrix :: "nat list"
  p_ref :: "nat list"
  feed_in :: "string option list"
  gapfilling_node :: "nat list"

text \<open>
  The loop over the rows B2 to B401. A row flagged as reference node whose feeder cell is
  empty raises an exception; otherwise its matrix index is appended to \<open>node.p_ref\<close>.
\<close>

fun read_nodes :: "knoten_row list \<Rightarrow> node_setup \<Rightarrow> py_error + node_setup" where
  "read_nodes [] node = Inr node"
| "read_nodes (r # rows) node =
     (if row_active r then
        (let node1 = node\<lparr>nbr_matrix := nbr_matrix node @ [length (nbr_matrix node)]\<rparr> in
         if row_p_ref r \<and> row_feed_in r = None then Inl Exception
         else
           (let node2 = (if row_p_ref r
                         then node1\<lparr>p_ref := p_ref node1 @ [last (nbr_matrix node1)]\<rparr>
                         else node1);
                node3 = node2\<lparr>feed_in := feed_in node2 @ [row_feed_in r]\<rparr>;
                node4 = node3\<lparr>gapfilling_node := gapfilling_node node3 @
                                  [if row_gapfilling r then 1 else 0]\<rparr>
            in read_nodes rows node4))
      else read_nodes rows node)"

text \<open>
  After the nodes read\_grid\_setup reads the pipes from the sheet "Leitungen", which
  changes no node data; \<open>read_lines\<close> is the exception that reading raises on a malformed
  row, if any. At the end the function checks that at most one node is the gapfilling node.
\<close>

definition read_grid_setup :: "knoten_row list \<Rightarrow> py_error option \<Rightarrow> py_error + node_setup" where
  "read_grid_setup rows read_lines =
     (case read_nodes rows \<lparr>nbr_matrix = [], p_ref = [], feed_in = [], gapfilling_node = []\<rparr> of
        Inl e \<Rightarrow> Inl e
      | Inr node \<Rightarrow>
         (case read_lines of
            Some e \<Rightarrow> Inl e
          | None \<Rightarrow> if sum_list (gapfilling_node node) > 1 then Inl Exception else Inr node))"

text \<open>
  main\_program calls read\_data, which reads the topology first and the measurement files
  afterwards (file input, the parameter \<open>read_measurements\<close>); then it initialises arrays
  and checks \<open>len(node.p_ref)\<close>, calling \<open>exit()\<close> if it is 0 or greater than 1. Everything
  after the check, the main loop with all hydraulic and thermal solves, is the parameter
  \<open>main_loop\<close>.
\<close>

definition main_program :: "knoten_row list \<Rightarrow> py_error option \<Rightarrow>
    (node_setup \<Rightarrow> py_error + 'd) \<Rightarrow> (node_setup \<Rightarrow> 'd \<Rightarrow> py_error + 'r) \<Rightarrow> py_error + 'r" where
  "main_program rows read_lines read_measurements main_loop =
     (case read_grid_setup rows read_lines of
        Inl e \<Rightarrow> Inl e
      | Inr node \<Rightarrow>
         (case read_measurements node of
            Inl e \<Rightarrow> Inl e
          | Inr d \<Rightarrow>
              if length (p_ref node) = 0 then Inl SystemExit
              else if length (p_ref node) > 1 then Inl SystemExit
              else main_loop node d))"

text \<open>The rows that become nodes flagged as pressure reference.\<close>

definition flagged_rows :: "knoten_row list \<Rightarrow> knoten_row list" where
  "flagged_rows rows = filter (\<lambda>r. row_active r \<and> row_p_ref r) rows"


section \<open>Thermal equation system (thermal\_equ\_system.solve\_network\_therm)\<close>

subsection \<open>Energy balances of the nodes\<close>

text \<open>
  The node data read in one thermal substep. \<open>m_ext\<close> is
  \<open>node.m_ext_forerun_trans[x_node][var_sim.cntr_time_hyd]\<close> for the forerun and
  \<open>node.m_ext_return_trans[x_node][var_sim.cntr_time_hyd]\<close> for the return (the same value
  as \<open>node.m_ext_forerun[x_node]\<close>, \<open>node.m_ext_return[x_node]\<close> of that hydraulic step).
  \<open>node.V_dot_feed[x_node]\<close>, \<open>node.temp_flow_feed[x_node]\<close>, \<open>node.Q_dot_sim[x_node]\<close> and
  \<open>node.V_dot_sim[x_node]\<close> are \<open>None\<close> for nodes without such data; subscripting \<open>None\<close>
  raises TypeError. The lists hold the entry of the current hydraulic step.
\<close>

record therm_node =
  m_ext :: "real list"
  feeder :: "string option list"
  ref_nodes :: "nat list"
  V_dot_feed :: "real option list"
  temp_flow_feed :: "real option list"
  Q_dot_sim :: "real option list"
  V_dot_sim :: "real option list"

text \<open>Python's truth value of \<open>node.feed_in[x_node]\<close>: \<open>None\<close> and the empty string are false.\<close>

definition truthy :: "string option \<Rightarrow> bool" where
  "truthy v = (case v of None \<Rightarrow> False | Some s \<Rightarrow> s \<noteq> [])"

text \<open>
  The sums of a mixing computation are numpy floats: dividing by zero raises nothing and
  yields nan or infinity. \<open>NanInf\<close> stands for that outcome.
\<close>

datatype np_float = Finite real | NanInf

definition np_div :: "real \<Rightarrow> real \<Rightarrow> np_float" where
  "np_div a b = (if b = 0 then NanInf else Finite (a / b))"

text \<open>
  The mixing loop over the pipes that end at the node (entry -1): \<open>sum_1\<close> collects outlet
  temperature times mass flow, \<open>sum_2\<close> the mass flows. \<open>t_out ! x_line\<close> is the last
  segment temperature \<open>line.t_forerun[x_line][-1]\<close> (or \<open>line.t_return[x_line][-1]\<close>),
  \<open>m_line ! x_line\<close> the pipe's mass flow of the current hydraulic step.
\<close>

fun mix_sums :: "int list \<Rightarrow> real list \<Rightarrow> real list \<Rightarrow> nat list \<Rightarrow> real \<times> real \<Rightarrow> real \<times> real" where
  "mix_sums row t_out m_line [] (sum_1, sum_2) = (sum_1, sum_2)"
| "mix_sums row t_out m_line (x_line # rest) (sum_1, sum_2) =
     (if row ! x_line = - 1
      then mix_sums row t_out m_line rest
             (sum_1 + t_out ! x_line * m_line ! x_line, sum_2 + m_line ! x_line)
      else mix_sums row t_out m_line rest (sum_1, sum_2))"

text \<open>The search \<open>for x_line ...: if matrix[x_node, x_line] == -1: x_line_ref = x_line; break\<close>.\<close>

definition first_line_in :: "int list \<Rightarrow> nat \<Rightarrow> nat option" where
  "first_line_in row n_lines = find (\<lambda>x_line. row ! x_line = - 1) [0..<n_lines]"

text \<open>
  Forerun, nodes without external mass flow and nodes with an external consumer: the two
  branches hold the same code. With one incoming pipe the node takes the pipe's outlet
  temperature, otherwise the quotient of the mixing sums. The quotient is not guarded.
  Without any incoming pipe the sums are still the Python integers 0, and dividing them
  raises ZeroDivisionError.
\<close>

definition passive_node_forerun :: "int list \<Rightarrow> nat \<Rightarrow> real list \<Rightarrow> real list \<Rightarrow>
    py_error + np_float option" where
  "passive_node_forerun row n_lines t_out m_line =
     (if count_list row (- 1) = 1 then
        (case first_line_in row n_lines of
           None \<Rightarrow> Inl NameError
         | Some x_line_ref \<Rightarrow> Inr (Some (Finite (t_out ! x_line_ref))))
      else
        (case mix_sums row t_out m_line [0..<n_lines] (0, 0) of
           (sum_1, sum_2) \<Rightarrow>
             if count_list row (- 1) = 0 then Inl ZeroDivisionError
             else Inr (Some (np_div sum_1 sum_2))))"

text \<open>
  ENERGY BALANCES OF THE NODES WHICH CAN BE SOLVED, forerun. The result is the temperature
  written to \<open>node.t_forerun_trans[x_node][var_sim.cntr_time_therm_forerun]\<close>, or \<open>None\<close>
  if the branch writes nothing (then \<open>node_calc_forerun[x_node]\<close> stays 0).

  In the feeder branch the external mass flow of a node that is not the reference feeder is
  read as \<open>node.m_ext_forerun[x_node][var_sim.cntr_time_hyd]\<close>; \<open>node.m_ext_forerun[x_node]\<close>
  is a number, and subscripting it raises TypeError.
\<close>

definition node_balance_forerun :: "matrix \<Rightarrow> nat \<Rightarrow> therm_node \<Rightarrow> real \<Rightarrow> real list \<Rightarrow>
    real list \<Rightarrow> nat \<Rightarrow> py_error + np_float option" where
  "node_balance_forerun M n_lines node rho t_out m_line x_node =
     (let row = M ! x_node; sum_line_in = count_list row (- 1) in
      if m_ext node ! x_node = 0 then passive_node_forerun row n_lines t_out m_line
      else if m_ext node ! x_node < 0 then passive_node_forerun row n_lines t_out m_line
      else if sum_line_in > 0 then
        (if truthy (feeder node ! x_node) \<and> x_node \<in> set (ref_nodes node) then
           (case V_dot_feed node ! x_node of
              None \<Rightarrow> Inl TypeError
            | Some V \<Rightarrow>
               (let m_ext_current = V * rho / 1000 in
                case temp_flow_feed node ! x_node of
                  None \<Rightarrow> Inl TypeError
                | Some T_feed \<Rightarrow>
                   (case mix_sums row t_out m_line [0..<n_lines]
                           (T_feed * m_ext_current, m_ext_current) of
                      (sum_1, sum_2) \<Rightarrow> Inr (Some (np_div sum_1 sum_2)))))
         else Inl TypeError)
      else Inr None)"

text \<open>
  ENERGY BALANCES OF THE NODES WHICH CAN BE SOLVED, return. \<open>T_f\<close> is the node's forerun
  temperature of this substep, \<open>t_prev\<close> the node's return temperature of the previous
  substep (\<open>node.t_return_trans[x_node][var_sim.cntr_time_therm_return-1]\<close>), \<open>temp_soil\<close>
  is \<open>var_sim.temp_soil[-1]\<close>. In the consumer branch the clipped temperature is stored
  first and then overwritten by the mixing result, which is computed from the unclipped
  \<open>temp_ext_return\<close>. The divisor of the consumer's energy balance is nonzero for a positive
  density, a positive specific heat and a nonzero volume flow; the model uses the division
  of the reals there.
\<close>

definition node_balance_return :: "matrix \<Rightarrow> nat \<Rightarrow> therm_node \<Rightarrow> real \<Rightarrow> real \<Rightarrow> real \<Rightarrow>
    real list \<Rightarrow> real list \<Rightarrow> real \<Rightarrow> real \<Rightarrow> nat \<Rightarrow> py_error + np_float option" where
  "node_balance_return M n_lines node rho c_p temp_soil t_out m_line T_f t_prev x_node =
     (let row = M ! x_node; sum_line_in = count_list row (- 1) in
      if m_ext node ! x_node = 0 then
        (if sum_line_in = 1 then
           (case first_line_in row n_lines of
              None \<Rightarrow> Inl NameError
            | Some x_line_ref \<Rightarrow> Inr (Some (Finite (t_out ! x_line_ref))))
         else
           (case mix_sums row t_out m_line [0..<n_lines] (0, 0) of
              (sum_1, sum_2) \<Rightarrow>
                if sum_2 \<noteq> 0 then Inr (Some (Finite (sum_1 / sum_2)))
                else Inr (Some (Finite t_prev))))
      else if m_ext node ! x_node > 0 \<and> feeder node ! x_node = None then
        (case Q_dot_sim node ! x_node of
           None \<Rightarrow> Inl TypeError
         | Some Q \<Rightarrow>
            (case V_dot_sim node ! x_node of
               None \<Rightarrow> Inl TypeError
             | Some V \<Rightarrow>
                (let temp_ext_return = T_f - Q * 1000 / (V / 1000 * rho * c_p) in
                 case mix_sums row t_out m_line [0..<n_lines]
                        (temp_ext_return * m_ext node ! x_node, m_ext node ! x_node) of
                   (sum_1, sum_2) \<Rightarrow>
                     if sum_2 \<noteq> 0 then Inr (Some (Finite (sum_1 / sum_2)))
                     else Inr (Some (Finite t_prev)))))
      else if sum_line_in > 0 then
        (case mix_sums row t_out m_line [0..<n_lines] (0, 0) of
           (sum_1, sum_2) \<Rightarrow> Inr (Some (np_div sum_1 sum_2)))
      else Inr None)"

text \<open>
  FIRST ENERGY BALANCES OF NODES AND PIPES - RETURN, the node's part. It runs for a node
  with \<open>node.m_ext_return[x_node] >= 0\<close> and no incoming return pipe (otherwise the result
  is \<open>None\<close>, nothing happens). \<open>T_f_prev\<close> and \<open>T_r_prev\<close> are the node's forerun and return
  temperature of the previous substep.
\<close>

definition first_balance_return :: "matrix \<Rightarrow> therm_node \<Rightarrow> real \<Rightarrow> real \<Rightarrow> real \<Rightarrow> nat \<Rightarrow>
    real \<Rightarrow> real \<Rightarrow> real \<Rightarrow> nat \<Rightarrow> (py_error + real) option" where
  "first_balance_return M node rho c_p temp_soil cntr_time_hyd T_f T_f_prev T_r_prev x_node =
     (let sum_line_in = count_list (M ! x_node) (- 1) in
      if m_ext node ! x_node \<ge> 0 \<and> sum_line_in = 0 then
        (if m_ext node ! x_node = 0 then
           (if cntr_time_hyd = 0 then Some (Inr T_f)
            else (let deltaT_last = T_f_prev - T_r_prev in Some (Inr (T_f - deltaT_last))))
         else if feeder node ! x_node = None then
           (case Q_dot_sim node ! x_node of
              None \<Rightarrow> Some (Inl TypeError)
            | Some Q_current \<Rightarrow>
               (let V_current = m_ext node ! x_node / rho * 1000;
                    t_current = T_f - Q_current * 1000 / (V_current / 1000 * rho * c_p)
                in if t_current < temp_soil then Some (Inr temp_soil)
                   else Some (Inr t_current)))
         else Some (Inl ValueError))
      else None)"

subsection \<open>Topological propagation of the forerun\<close>

text \<open>
  The control flow of the forerun part of one thermal substep. \<open>line_calc_forerun\<close> and
  \<open>node_calc_forerun\<close> are numpy arrays of zeros and ones, modelled as lists of booleans.
  Which branch a node takes, and whether it raises, depends on the coupling matrix, on the
  external mass flows and on the feeder data only, never on a temperature; the temperatures
  themselves are described by \<open>node_balance_forerun\<close> above. The state therefore records,
  instead of the temperature arrays, the writes to them in the order they happen:
  \<open>NodeAssigned x\<close> for an assignment to \<open>node.t_forerun_trans[x][cntr_time_therm_forerun]\<close>,
  \<open>LineAdvanced x\<close> for an update \<open>line.t_forerun[x] = line.t_forerun[x] + dTdt * dt\<close>.
\<close>

datatype therm_event = NodeAssigned nat | LineAdvanced nat

record prop_state =
  line_calc :: "bool list"
  node_calc :: "bool list"
  events :: "therm_event list"

text \<open>
  Whether the energy balance of a node raises, writes a temperature (\<open>True\<close>) or writes
  nothing (\<open>False\<close>): the branches of \<open>node_balance_forerun\<close> without the values.
\<close>

definition node_balance_outcome :: "matrix \<Rightarrow> nat \<Rightarrow> therm_node \<Rightarrow> nat \<Rightarrow> py_error + bool" where
  "node_balance_outcome M n_lines node x_node =
     (let row = M ! x_node; sum_line_in = count_list row (- 1) in
      if m_ext node ! x_node = 0 \<or> m_ext node ! x_node < 0 then
        (if sum_line_in = 1 then
           (case first_line_in row n_lines of None \<Rightarrow> Inl NameError | Some x_line_ref \<Rightarrow> Inr True)
         else if sum_line_in = 0 then Inl ZeroDivisionError
         else Inr True)
      else if sum_line_in > 0 then
        (if truthy (feeder node ! x_node) \<and> x_node \<in> set (ref_nodes node) then
           (case V_dot_feed node ! x_node of
              None \<Rightarrow> Inl TypeError
            | Some V \<Rightarrow>
               (case temp_flow_feed node ! x_node of
                  None \<Rightarrow> Inl TypeError
                | Some T_feed \<Rightarrow> Inr True))
         else Inl TypeError)
      else Inr False)"

text \<open>
  FIRST ENERGY BALANCES OF NODES AND PIPES - FLOW. A node with a non-negative external mass
  flow and no incoming pipe takes the feeder temperature
  \<open>node.temp_flow_feed[x_node][var_sim.cntr_time_hyd]\<close> (TypeError if the node has no
  feeder data); every pipe that starts at the node is advanced and marked, and the node is
  marked inside that loop over the pipes.
\<close>

fun first_lines :: "int list \<Rightarrow> nat \<Rightarrow> nat list \<Rightarrow> prop_state \<Rightarrow> prop_state" where
  "first_lines row x_node [] s = s"
| "first_lines row x_node (x_line # rest) s =
     (if row ! x_line = 1 then
        first_lines row x_node rest
          (s\<lparr>line_calc := (line_calc s)[x_line := True],
             node_calc := (node_calc s)[x_node := True],
             events := events s @ [LineAdvanced x_line]\<rparr>)
      else first_lines row x_node rest s)"

fun first_balances_forerun :: "matrix \<Rightarrow> nat \<Rightarrow> therm_node \<Rightarrow> nat list \<Rightarrow> prop_state \<Rightarrow>
    py_error + prop_state" where
  "first_balances_forerun M n_lines node [] s = Inr s"
| "first_balances_forerun M n_lines node (x_node # rest) s =
     (let sum_line_in = count_list (M ! x_node) (- 1) in
      if m_ext node ! x_node \<ge> 0 \<and> sum_line_in = 0 then
        (case temp_flow_feed node ! x_node of
           None \<Rightarrow> Inl TypeError
         | Some T_feed \<Rightarrow>
             first_balances_forerun M n_lines node rest
               (first_lines (M ! x_node) x_node [0..<n_lines]
                  (s\<lparr>events := events s @ [NodeAssigned x_node]\<rparr>)))
      else first_balances_forerun M n_lines node rest s)"

text \<open>
  FIND NODES WHICH CAN BE SOLVED AT CURRENT SIMULATION STEP: an unsolved node none of
  whose incoming pipes is unsolved and at least one of whose incoming pipes is solved.
\<close>

definition node_calc_now :: "matrix \<Rightarrow> nat \<Rightarrow> prop_state \<Rightarrow> nat \<Rightarrow> bool" where
  "node_calc_now M n_lines s x_node =
     (\<not> node_calc s ! x_node \<and>
      (let sum_t_int_out_unkn =
             length (filter (\<lambda>x_line. M ! x_node ! x_line = - 1 \<and> \<not> line_calc s ! x_line)
                       [0..<n_lines]);
           sum_t_int_out_known =
             length (filter (\<lambda>x_line. M ! x_node ! x_line = - 1 \<and> line_calc s ! x_line)
                       [0..<n_lines])
       in sum_t_int_out_unkn = 0 \<and> sum_t_int_out_known > 0))"

text \<open>
  ENERGY BALANCES OF THE NODES WHICH CAN BE SOLVED: the flags were computed before this
  loop starts; a node whose branch writes a temperature is marked solved.
\<close>

fun node_balances :: "matrix \<Rightarrow> nat \<Rightarrow> therm_node \<Rightarrow> bool list \<Rightarrow> nat list \<Rightarrow> prop_state \<Rightarrow>
    py_error + prop_state" where
  "node_balances M n_lines node now [] s = Inr s"
| "node_balances M n_lines node now (x_node # rest) s =
     (if now ! x_node then
        (case node_balance_outcome M n_lines node x_node of
           Inl e \<Rightarrow> Inl e
         | Inr written \<Rightarrow>
             if written then
               node_balances M n_lines node now rest
                 (s\<lparr>node_calc := (node_calc s)[x_node := True],
                    events := events s @ [NodeAssigned x_node]\<rparr>)
             else node_balances M n_lines node now rest s)
      else node_balances M n_lines node now rest s)"

text \<open>
  DETERMINE PIPES WHICH CAN BE SOLVED: an unsolved pipe that starts at a solved node.
  TRANSIENT THERMAL CALCULATIONS OF THE PIPES: each such pipe is advanced and marked.
\<close>

definition line_calc_now :: "matrix \<Rightarrow> nat \<Rightarrow> prop_state \<Rightarrow> nat \<Rightarrow> bool" where
  "line_calc_now M n_nodes s x_line =
     (\<not> line_calc s ! x_line \<and>
      list_ex (\<lambda>x_node. M ! x_node ! x_line = 1 \<and> node_calc s ! x_node) [0..<n_nodes])"

fun line_balances :: "bool list \<Rightarrow> nat list \<Rightarrow> prop_state \<Rightarrow> prop_state" where
  "line_balances now [] s = s"
| "line_balances now (x_line # rest) s =
     (if now ! x_line then
        line_balances now rest
          (s\<lparr>line_calc := (line_calc s)[x_line := True],
             events := events s @ [LineAdvanced x_line]\<rparr>)
      else line_balances now rest s)"

text \<open>One pass through the body of \<open>while calc_therm == 1\<close>.\<close>

definition propagation_round :: "matrix \<Rightarrow> nat \<Rightarrow> nat \<Rightarrow> therm_node \<Rightarrow> prop_state \<Rightarrow>
    py_error + prop_state" where
  "propagation_round M n_nodes n_lines node s =
     (case node_balances M n_lines node (map (node_calc_now M n_lines s) [0..<n_nodes])
             [0..<n_nodes] s of
        Inl e \<Rightarrow> Inl e
      | Inr s1 \<Rightarrow>
          Inr (line_balances (map (line_calc_now M n_nodes s1) [0..<n_lines]) [0..<n_lines] s1))"

text \<open>
  The loop ends when every pipe and every node is marked
  (\<open>sum(line_calc_forerun) == len(line_calc_forerun) and sum(node_calc_forerun) == len(node_calc_forerun)\<close>);
  the test stands at the end of the body. There is no other exit; a run that stays in the
  loop forever is the value \<open>None\<close>.
\<close>

partial_function (option) propagation_loop :: "matrix \<Rightarrow> nat \<Rightarrow> nat \<Rightarrow> therm_node \<Rightarrow>
    prop_state \<Rightarrow> (py_error + prop_state) option" where
  "propagation_loop M n_nodes n_lines node s =
     (case propagation_round M n_nodes n_lines node s of
        Inl e \<Rightarrow> Some (Inl e)
      | Inr s' \<Rightarrow>
          if list_all id (line_calc s') \<and> list_all id (node_calc s') then Some (Inr s')
          else propagation_loop M n_nodes n_lines node s')"

definition forerun_substep :: "matrix \<Rightarrow> nat \<Rightarrow> nat \<Rightarrow> therm_node \<Rightarrow>
    (py_error + prop_state) option" where
  "forerun_substep M n_nodes n_lines node =
     (case first_balances_forerun M n_lines node [0..<n_nodes]
             \<lparr>line_calc = replicate n_lines False, node_calc = replicate n_nodes False,
              events = []\<rparr> of
        Inl e \<Rightarrow> Some (Inl e)
      | Inr s \<Rightarrow> propagation_loop M n_nodes n_lines node s)"

text \<open>
  The directed graph of the coupling matrix: an edge leads from the node where a pipe
  starts (entry 1) to the node where it ends (entry -1).
\<close>

definition pipe_edges :: "matrix \<Rightarrow> nat \<Rightarrow> nat \<Rightarrow> (nat \<times> nat) set" where
  "pipe_edges M n_nodes n_lines =
     {(a, b). a < n_nodes \<and> b < n_nodes \<and>
              (\<exists>x_line < n_lines. M ! a ! x_line = 1 \<and> M ! b ! x_line = - 1)}"

text \<open>
  A source node in the sense of the first energy balances: no incoming pipe, a non-negative
  external mass flow, feeder data to read the temperature from, and a pipe that starts at it
  (in a connected network with more than one node no node is isolated).
\<close>

definition source_node :: "matrix \<Rightarrow> therm_node \<Rightarrow> nat \<Rightarrow> bool" where
  "source_node M node x_node =
     (count_list (M ! x_node) (- 1) = 0 \<and> m_ext node ! x_node \<ge> 0 \<and>
      temp_flow_feed node ! x_node \<noteq> None \<and> count_list (M ! x_node) 1 > 0)"

text \<open>The condition under which the first energy balances treat a node.\<close>

definition seed :: "matrix \<Rightarrow> therm_node \<Rightarrow> nat \<Rightarrow> bool" where
  "seed M node x_node = (m_ext node ! x_node \<ge> 0 \<and> count_list (M ! x_node) (- 1) = 0)"

text \<open>The reference feeder with its measured volume flow and temperature.\<close>

definition reference_feeder :: "therm_node \<Rightarrow> nat \<Rightarrow> bool" where
  "reference_feeder node x_node =
     (truthy (feeder node ! x_node) \<and> x_node \<in> set (ref_nodes node) \<and>
      V_dot_feed node ! x_node \<noteq> None \<and> temp_flow_feed node ! x_node \<noteq> None)"

text \<open>The invariant of the propagation loop.\<close>

definition prop_inv :: "matrix \<Rightarrow> nat \<Rightarrow> nat \<Rightarrow> prop_state \<Rightarrow> bool" where
  "prop_inv M n_nodes n_lines s =
     (length (line_calc s) = n_lines \<and> length (node_calc s) = n_nodes \<and>
      (\<forall>x_line < n_lines. \<forall>x_node < n_nodes.
          M ! x_node ! x_line = 1 \<longrightarrow> line_calc s ! x_line = node_calc s ! x_node) \<and>
      (\<forall>x_node < n_nodes.
          count_list (events s) (NodeAssigned x_node) = (if node_calc s ! x_node then 1 else 0)) \<and>
      (\<forall>x_line < n_lines.
          count_list (events s) (LineAdvanced x_line) = (if line_calc s ! x_line then 1 else 0)) \<and>
      (\<forall>x_node < n_nodes. count_list (M ! x_node) (- 1) = 0 \<longrightarrow> node_calc s ! x_node))"


section \<open>Properties of the coupling matrix\<close>

lemma count_list_update:
  "i < length xs \<Longrightarrow>
   count_list (xs[i := v]) w + (if xs ! i = w then 1 else 0) =
     count_list xs w + (if v = w then 1 else 0)"
proof (induction xs arbitrary: i)
  case Nil
  then show ?case by simp
next
  case (Cons a xs)
  show ?case
  proof (cases i)
    case 0
    then show ?thesis by simp
  next
    case (Suc j)
    then have "j < length xs" using Cons.prems by simp
    from Cons.IH[OF this] show ?thesis using Suc by (auto split: if_splits)
  qed
qed

lemma count_list_replicate: "count_list (replicate n a) w = (if a = w then n else 0)"
  by (induction n) auto

lemma count_list_map_inj: "inj f \<Longrightarrow> count_list (map f xs) (f w) = count_list xs w"
  by (induction xs) (auto dest: injD)

lemma column_ok_build:
  assumes "a < n" "b < n" "a \<noteq> b"
  shows "column_ok ((replicate n 0)[a := 1, b := - 1])"
proof -
  let ?c1 = "(replicate n (0::int))[a := 1]"
  let ?c = "?c1[b := - 1]"
  have b1: "?c1 ! b = 0" using assms by simp
  have p1: "count_list ?c1 1 = 1"
    using count_list_update[of a "replicate n (0::int)" 1 1] assms
    by (simp add: count_list_replicate)
  have p2: "count_list ?c1 (- 1) = 0"
    using count_list_update[of a "replicate n (0::int)" 1 "- 1"] assms
    by (simp add: count_list_replicate)
  have 1: "count_list ?c 1 = 1"
    using count_list_update[of b ?c1 "- 1" 1] assms b1 p1 by simp
  have 2: "count_list ?c (- 1) = 1"
    using count_list_update[of b ?c1 "- 1" "- 1"] assms b1 p2 by simp
  have 3: "list_all (\<lambda>v. v = 1 \<or> v = 0 \<or> v = - 1) ?c"
    unfolding list_all_length using assms by (auto simp: nth_list_update)
  show ?thesis unfolding column_ok_def using 1 2 3 by simp
qed

lemma inj_flip_entry: "inj flip_entry"
  by (auto simp: inj_def flip_entry_def split: if_splits)

lemma inj_uminus_int: "inj (uminus :: int \<Rightarrow> int)"
  by (simp add: inj_def)

lemma column_ok_flip: "column_ok c \<Longrightarrow> column_ok (map flip_entry c)"
proof -
  assume ok: "column_ok c"
  have a: "count_list (map flip_entry c) 1 = count_list c (- 1)"
    using count_list_map_inj[OF inj_flip_entry, of c "- 1"] by (simp add: flip_entry_def)
  have b: "count_list (map flip_entry c) (- 1) = count_list c 1"
    using count_list_map_inj[OF inj_flip_entry, of c 1] by (simp add: flip_entry_def)
  have c: "list_all (\<lambda>v. v = 1 \<or> v = 0 \<or> v = - 1) (map flip_entry c)"
    using ok unfolding column_ok_def list_all_iff by (auto simp: flip_entry_def)
  show ?thesis using ok a b c unfolding column_ok_def by simp
qed

lemma column_ok_neg: "column_ok c \<Longrightarrow> column_ok (map uminus c)"
proof -
  assume ok: "column_ok c"
  have a: "count_list (map uminus c) 1 = count_list c (- 1)"
    using count_list_map_inj[OF inj_uminus_int, of c "- 1"] by simp
  have b: "count_list (map uminus c) (- 1) = count_list c 1"
    using count_list_map_inj[OF inj_uminus_int, of c 1] by simp
  have c: "list_all (\<lambda>v. v = 1 \<or> v = 0 \<or> v = - 1) (map uminus c)"
    using ok unfolding column_ok_def list_all_iff by auto
  show ?thesis using ok a b c unfolding column_ok_def by simp
qed

lemma column_flip_column:
  "list_all (\<lambda>row. x < length row) M \<Longrightarrow>
   column (flip_column M x') x = (if x = x' then map flip_entry (column M x) else column M x)"
  by (auto simp: column_def flip_column_def list_all_iff)

lemma column_matrix_neg:
  "list_all (\<lambda>row. x < length row) M \<Longrightarrow> column (matrix_neg M) x = map uminus (column M x)"
  by (auto simp: column_def matrix_neg_def list_all_iff)

lemma is_matrix_flip_column: "is_matrix n m M \<Longrightarrow> is_matrix n m (flip_column M x)"
  by (auto simp: is_matrix_def flip_column_def list_all_iff)

lemma is_matrix_neg: "is_matrix n m M \<Longrightarrow> is_matrix n m (matrix_neg M)"
  by (auto simp: is_matrix_def matrix_neg_def list_all_iff)

lemma is_matrix_rows: "is_matrix n m M \<Longrightarrow> x < m \<Longrightarrow> list_all (\<lambda>row. x < length row) M"
  by (auto simp: is_matrix_def list_all_iff)

lemma is_matrix_check:
  "is_matrix n m M \<Longrightarrow> is_matrix n m (snd (check_flow_directions m_int xs (cntr, M)))"
  by (induction xs arbitrary: cntr M) (auto simp: is_matrix_flip_column)

lemma column_ok_check:
  "is_matrix n m M \<Longrightarrow> x < m \<Longrightarrow> column_ok (column M x) \<Longrightarrow>
   column_ok (column (snd (check_flow_directions m_int xs (cntr, M))) x)"
proof (induction xs arbitrary: cntr M)
  case Nil
  then show ?case by simp
next
  case (Cons a xs)
  have rows: "list_all (\<lambda>row. x < length row) M"
    using Cons.prems is_matrix_rows by blast
  have eq: "column (flip_column M a) x =
      (if x = a then map flip_entry (column M x) else column M x)"
    by (rule column_flip_column[OF rows])
  have "column_ok (column (flip_column M a) x)"
    unfolding eq using Cons.prems(3) column_ok_flip[of "column M x"] by presburger
  then show ?case using Cons by (simp add: is_matrix_flip_column)
qed

lemma is_matrix_zeros: "is_matrix n m (zeros n m)"
  by (simp add: is_matrix_def zeros_def list_all_iff)

lemma set_entry_is_matrix:
  "set_entry M i j v = Inr M' \<Longrightarrow> is_matrix n m M \<Longrightarrow> is_matrix n m M'"
  by (auto simp: set_entry_def is_matrix_def list_all_length nth_list_update split: if_splits)

lemma set_entry_column:
  "set_entry M i j v = Inr M' \<Longrightarrow>
   column M' x = (if x = j then (column M x)[i := v] else column M x) \<and> i < length M"
  by (auto simp: set_entry_def column_def map_update list_update_same_conv split: if_splits)

lemma fill_coupl_is_matrix:
  "fill_coupl ns ne xs M = Inr M' \<Longrightarrow> is_matrix n m M \<Longrightarrow> is_matrix n m M'"
proof (induction xs arbitrary: M)
  case Nil
  then show ?case by simp
next
  case (Cons a xs)
  then show ?case
    by (auto split: if_splits sum.splits dest!: set_entry_is_matrix)
qed

lemma fill_coupl_other:
  "fill_coupl ns ne xs M = Inr M' \<Longrightarrow> x \<notin> set xs \<Longrightarrow> column M' x = column M x"
proof (induction xs arbitrary: M)
  case Nil
  then show ?case by simp
next
  case (Cons a xs)
  then show ?case
    by (auto split: if_splits sum.splits dest!: set_entry_column)
qed

lemma fill_coupl_column:
  "fill_coupl ns ne xs M = Inr M' \<Longrightarrow> distinct xs \<Longrightarrow> x \<in> set xs \<Longrightarrow>
   column M' x = (column M x)[ns ! x := 1, ne ! x := - 1] \<and>
   ns ! x < length M \<and> ne ! x < length M"
proof (induction xs arbitrary: M)
  case Nil
  then show ?case by simp
next
  case (Cons a xs)
  show ?case
  proof (cases "x = a")
    case True
    from Cons.prems(1) obtain M1 M2 where
      s1: "set_entry M (ns ! a) a 1 = Inr M1" and
      s2: "set_entry M1 (ne ! a) a (- 1) = Inr M2" and
      r: "fill_coupl ns ne xs M2 = Inr M'"
      by (auto split: if_splits sum.splits)
    have "x \<notin> set xs" using Cons.prems(2) True by simp
    then have "column M' x = column M2 x" using fill_coupl_other[OF r] by simp
    moreover have "length M1 = length M" using s1 by (auto simp: set_entry_def split: if_splits)
    ultimately show ?thesis
      using set_entry_column[OF s1, of x] set_entry_column[OF s2, of x] True by simp
  next
    case False
    from Cons.prems(1) obtain M1 M2 where
      s1: "set_entry M (ns ! a) a 1 = Inr M1" and
      s2: "set_entry M1 (ne ! a) a (- 1) = Inr M2" and
      r: "fill_coupl ns ne xs M2 = Inr M'"
      by (auto split: if_splits sum.splits)
    have len: "length M2 = length M" using s1 s2 by (auto simp: set_entry_def split: if_splits)
    have "column M2 x = column M x"
      using set_entry_column[OF s1, of x] set_entry_column[OF s2, of x] False by simp
    then show ?thesis using Cons.IH[OF r] Cons.prems False len by simp
  qed
qed

lemma make_matrix_coupl_column_ok:
  assumes "make_matrix_coupl n_nodes n_lines ns ne = Inr M" "x < n_lines" "ns ! x \<noteq> ne ! x"
  shows "column_ok (column M x)" "is_matrix n_nodes n_lines M"
proof -
  have f: "fill_coupl ns ne [0..<n_lines] (zeros n_nodes n_lines) = Inr M"
    using assms(1) by (simp add: make_matrix_coupl_def)
  have z: "column (zeros n_nodes n_lines) x = replicate n_nodes 0"
    using assms(2) by (simp add: column_def zeros_def)
  have "length (zeros n_nodes n_lines) = n_nodes" by (simp add: zeros_def)
  with fill_coupl_column[OF f, of x] assms(2) z
  have c: "column M x = (replicate n_nodes 0)[ns ! x := 1, ne ! x := - 1]"
    and a: "ns ! x < n_nodes" and b: "ne ! x < n_nodes"
    by simp_all
  show "column_ok (column M x)" using column_ok_build[OF a b assms(3)] c by simp
  show "is_matrix n_nodes n_lines M" using fill_coupl_is_matrix[OF f is_matrix_zeros] .
qed

text \<open>
  C10. When every pipe's start node differs from its end node, every column of the matrix
  built by make\_matrix\_coupl has exactly one entry 1, exactly one entry -1 and zeros
  elsewhere. Flipping any column, a whole direction scan and the negation that forms the
  return matrix all keep that shape, so each pipe keeps exactly one start and one end node.
\<close>

theorem coupling_column_invariant:
  assumes "make_matrix_coupl n_nodes n_lines node_start node_end = Inr M"
    and "\<forall>x < n_lines. node_start ! x \<noteq> node_end ! x"
    and "x_line < n_lines"
  shows "is_matrix n_nodes n_lines M \<and> column_ok (column M x_line) \<and>
         (\<forall>M'. is_matrix n_nodes n_lines M' \<and> column_ok (column M' x_line) \<longrightarrow>
            (\<forall>x. is_matrix n_nodes n_lines (flip_column M' x) \<and>
                  column_ok (column (flip_column M' x) x_line)) \<and>
            (\<forall>m_int xs cntr.
                  is_matrix n_nodes n_lines (snd (check_flow_directions m_int xs (cntr, M'))) \<and>
                  column_ok (column (snd (check_flow_directions m_int xs (cntr, M'))) x_line)) \<and>
            is_matrix n_nodes n_lines (matrix_neg M') \<and>
            column_ok (column (matrix_neg M') x_line))"
proof -
  have ne: "node_start ! x_line \<noteq> node_end ! x_line" using assms(2,3) by simp
  have built: "is_matrix n_nodes n_lines M \<and> column_ok (column M x_line)"
    using make_matrix_coupl_column_ok[OF assms(1) assms(3) ne] by simp
  have step: "(\<forall>x. is_matrix n_nodes n_lines (flip_column M' x) \<and>
                  column_ok (column (flip_column M' x) x_line)) \<and>
            (\<forall>m_int xs cntr.
                  is_matrix n_nodes n_lines (snd (check_flow_directions m_int xs (cntr, M'))) \<and>
                  column_ok (column (snd (check_flow_directions m_int xs (cntr, M'))) x_line)) \<and>
            is_matrix n_nodes n_lines (matrix_neg M') \<and>
            column_ok (column (matrix_neg M') x_line)"
    if m: "is_matrix n_nodes n_lines M'" and c: "column_ok (column M' x_line)" for M'
  proof -
    have rows: "list_all (\<lambda>row. x_line < length row) M'"
      using is_matrix_rows[OF m assms(3)] .
    have f: "column_ok (column (flip_column M' x) x_line)" for x
      unfolding column_flip_column[OF rows] using c column_ok_flip[OF c] by presburger
    have n: "column_ok (column (matrix_neg M') x_line)"
      unfolding column_matrix_neg[OF rows] using column_ok_neg[OF c] .
    show ?thesis
      using f n is_matrix_flip_column[OF m] is_matrix_neg[OF m] is_matrix_check[OF m]
        column_ok_check[OF m assms(3) c] by blast
  qed
  show ?thesis using built step by blast
qed

theorem coupling_column_invariant_witness:
  "make_matrix_coupl 3 2 [0, 1] [1, 2] = Inr [[1, 0], [- 1, 1], [0, - 1]] \<and>
   [0, 1::nat] ! 0 \<noteq> [1, 2] ! 0 \<and> [0, 1::nat] ! 1 \<noteq> [1, 2] ! 1 \<and>
   column_ok (column [[1, 0], [- 1, 1], [0, - 1]] 0) \<and>
   column_ok (column (flip_column [[1, 0], [- 1, 1], [0, - 1]] 0) 0) \<and>
   column_ok (column (matrix_neg [[1, 0], [- 1, 1], [0, - 1]]) 0)"
proof -
  have h1: "make_matrix_coupl 3 2 [0, 1] [1, 2] = Inr [[1, 0], [- 1, 1], [0, - 1]]"
    by (simp add: make_matrix_coupl_def zeros_def set_entry_def upt_rec numeral_2_eq_2 numeral_3_eq_3)
  have h2: "\<forall>x < (2::nat). [0, 1::nat] ! x \<noteq> [1, 2] ! x"
    by (simp add: less_2_cases_iff)
  have h3: "(0::nat) < 2" by simp
  from coupling_column_invariant[OF h1 h2 h3] h1 show ?thesis by simp
qed

section \<open>Properties of the direction-correction loop\<close>

lemma check_fst:
  "fst (check_flow_directions m xs (c, M)) = c + length (filter (wrong_direction m) xs)"
  by (induction xs arbitrary: c M) auto

lemma check_clean:
  "\<not> list_ex (wrong_direction m) xs \<Longrightarrow> check_flow_directions m xs (c, M) = (c, M)"
  by (induction xs arbitrary: c M) auto

lemma check_positive:
  "(0 < fst (check_flow_directions m [0..<n] (0, M))) = any_wrong n m"
  unfolding check_fst any_wrong_def list_ex_iff by (auto simp: filter_empty_conv)

lemma direction_loop_unfold:
  "direction_loop f n M =
     (if any_wrong n (f M) then direction_loop f n (flip_step f n M) else Some (M, f M))"
proof (cases "any_wrong n (f M)")
  case True
  then have "0 < fst (check_flow_directions (f M) [0..<n] (0, M))"
    by (simp add: check_positive)
  then show ?thesis using True
    by (subst direction_loop.simps)
       (cases "check_flow_directions (f M) [0..<n] (0, M)", simp add: flip_step_def)
next
  case False
  then have "check_flow_directions (f M) [0..<n] (0, M) = (0, M)"
    by (simp add: any_wrong_def check_clean)
  then show ?thesis using False
    by (subst direction_loop.simps) simp
qed

lemma flip_rounds_Suc: "flip_rounds f n (Suc k) M = flip_rounds f n k (flip_step f n M)"
  by (simp add: flip_rounds_def funpow_swap1)

lemma flip_rounds_0: "flip_rounds f n 0 M = M"
  by (simp add: flip_rounds_def)

lemma direction_loop_returns:
  "\<not> any_wrong n (f (flip_rounds f n k M)) \<Longrightarrow> \<exists>r. direction_loop f n M = Some r"
proof (induction k arbitrary: M)
  case 0
  then show ?case by (subst direction_loop_unfold) (simp add: flip_rounds_0)
next
  case (Suc k)
  show ?case
  proof (cases "any_wrong n (f M)")
    case True
    from Suc.prems have "\<not> any_wrong n (f (flip_rounds f n k (flip_step f n M)))"
      by (simp add: flip_rounds_Suc)
    from Suc.IH[OF this] show ?thesis using True by (subst direction_loop_unfold) simp
  next
    case False
    then show ?thesis by (subst direction_loop_unfold) simp
  qed
qed

lemma direction_loop_result:
  "direction_loop f n M = Some r \<Longrightarrow>
   \<exists>k. r = (flip_rounds f n k M, f (flip_rounds f n k M)) \<and>
       \<not> any_wrong n (f (flip_rounds f n k M)) \<and>
       (\<forall>j<k. any_wrong n (f (flip_rounds f n j M)))"
proof (induction f n M r rule: direction_loop.raw_induct[rotated, consumes 1])
  case (1 loop f n M r)
  show ?case
  proof (cases "any_wrong n (f M)")
    case True
    then have pos: "0 < fst (check_flow_directions (f M) [0..<n] (0, M))"
      by (simp add: check_positive)
    with 1(2) have "loop f n (flip_step f n M) = Some r"
      by (cases "check_flow_directions (f M) [0..<n] (0, M)") (simp add: flip_step_def)
    from 1(1)[OF this] obtain k where
      k: "r = (flip_rounds f n k (flip_step f n M), f (flip_rounds f n k (flip_step f n M)))"
         "\<not> any_wrong n (f (flip_rounds f n k (flip_step f n M)))"
         "\<forall>j<k. any_wrong n (f (flip_rounds f n j (flip_step f n M)))"
      by blast
    have "\<forall>j<Suc k. any_wrong n (f (flip_rounds f n j M))"
    proof (intro allI impI)
      fix j assume "j < Suc k"
      show "any_wrong n (f (flip_rounds f n j M))"
      proof (cases j)
        case 0
        then show ?thesis using True by (simp add: flip_rounds_0)
      next
        case (Suc i)
        then show ?thesis using k(3) \<open>j < Suc k\<close> by (simp add: flip_rounds_Suc)
      qed
    qed
    with k(1,2) show ?thesis
      by (intro exI[of _ "Suc k"]) (simp add: flip_rounds_Suc)
  next
    case False
    then have "check_flow_directions (f M) [0..<n] (0, M) = (0, M)"
      by (simp add: any_wrong_def check_clean)
    with 1(2) have "r = (M, f M)" by simp
    then show ?thesis using False by (intro exI[of _ 0]) (simp add: flip_rounds_0)
  qed
qed















text \<open>
  C3 (as amended). The direction-correction loop has no iteration cutoff and no error exit:
  it never returns exactly when every solve of the flip-and-resolve sequence reports some
  pipe below -1e-10, and it returns as soon as one solve reports none.
\<close>

theorem direction_loop_no_cutoff:
  "(direction_loop fsolve n_lines M = None) =
   (\<forall>k. any_wrong n_lines (fsolve (flip_rounds fsolve n_lines k M)))"
proof
  assume n: "direction_loop fsolve n_lines M = None"
  show "\<forall>k. any_wrong n_lines (fsolve (flip_rounds fsolve n_lines k M))"
  proof (rule ccontr)
    assume "\<not> (\<forall>k. any_wrong n_lines (fsolve (flip_rounds fsolve n_lines k M)))"
    then obtain k where "\<not> any_wrong n_lines (fsolve (flip_rounds fsolve n_lines k M))" by blast
    from direction_loop_returns[of n_lines fsolve k M, OF this] n show False by simp
  qed
next
  assume a: "\<forall>k. any_wrong n_lines (fsolve (flip_rounds fsolve n_lines k M))"
  show "direction_loop fsolve n_lines M = None"
  proof (cases "direction_loop fsolve n_lines M")
    case None
    then show ?thesis .
  next
    case (Some r)
    from direction_loop_result[OF Some] a show ?thesis by blast
  qed
qed

theorem direction_loop_no_cutoff_witness:
  "direction_loop (\<lambda>M. if M = [[1], [- 1]] then [- 1] else [1]) 1 [[1], [- 1]] \<noteq> None \<and>
   \<not> any_wrong 1 ((\<lambda>M. if M = [[1], [- 1]] then [- 1] else [1])
       (flip_rounds (\<lambda>M. if M = [[1], [- 1]] then [- 1] else [1]) 1 1 [[1], [- 1]]))"
proof -
  let ?f = "\<lambda>M::matrix. if M = [[1], [- 1]] then [- 1] else [1::real]"
  have s: "flip_rounds ?f 1 1 [[1], [- 1]] = [[- 1], [1]]"
    by (simp add: flip_rounds_def flip_step_def wrong_direction_def flip_column_def flip_entry_def)
  have w: "\<not> any_wrong 1 (?f (flip_rounds ?f 1 1 [[1], [- 1]]))"
    unfolding s by (simp add: any_wrong_def wrong_direction_def)
  with direction_loop_no_cutoff[of ?f 1 "[[1], [- 1]]"] show ?thesis by blast
qed

text \<open>
  C3 as stated fails: with a solver that reports a negative mass flow for every coupling
  matrix, solve\_network\_hydr neither returns nor aborts.
\<close>

theorem direction_loop_cutoff_counterexample:
  "solve_network_hydr (\<lambda>M. [- 1]) (\<lambda>M. [1]) 1 [[1], [- 1]] = None"
proof -
  have "\<And>k. any_wrong 1 ((\<lambda>M::matrix. [- 1::real]) (flip_rounds (\<lambda>M. [- 1]) 1 k [[1], [- 1]]))"
    by (simp add: any_wrong_def wrong_direction_def)
  then have "direction_loop (\<lambda>M. [- 1]) 1 [[1], [- 1]] = None"
    using direction_loop_result[of "\<lambda>M. [- 1]" 1 "[[1], [- 1]]"]
    by (cases "direction_loop (\<lambda>M. [- 1]) 1 [[1], [- 1]]") auto
  then show ?thesis by (simp add: solve_network_hydr_def)
qed

section \<open>Properties of the continuity equations\<close>

lemma continuity_sum_eq:
  "continuity_sum row m xs equ = equ + (\<Sum>x\<leftarrow>xs. real_of_int (row ! x) * m ! x)"
  by (induction xs arbitrary: equ) auto

lemma collect_nth:
  "collect f xs = Inr rs \<Longrightarrow> length rs = length xs \<and> (\<forall>i<length xs. f (xs ! i) = Inr (rs ! i))"
proof (induction xs arbitrary: rs)
  case Nil
  then show ?case by simp
next
  case (Cons a xs)
  from Cons.prems obtain r rs' where
    r: "f a = Inr r" "collect f xs = Inr rs'" "rs = r # rs'"
    by (auto split: sum.splits)
  from Cons.IH[OF r(2)] r show ?case by (auto simp: nth_Cons split: nat.splits)
qed

lemma continuity_equ_value:
  "continuity_equ M n_lines u x_node = Inr r \<Longrightarrow>
   \<exists>m. node_m_ext u ! x_node = Some m \<and> r = signed_sum M n_lines (line_m_int u) x_node - m"
  by (auto simp: continuity_equ_def continuity_sum_eq signed_sum_def Let_def
           split: option.splits if_splits)

lemma equ_network_continuity:
  assumes "equ_network catch M n_nodes n_lines start_variables node line rho g = Inr res"
    and "x_node < n_nodes"
  shows "\<exists>u m. set_start_values catch n_nodes n_lines start_variables node = Inr u \<and>
           node_m_ext u ! x_node = Some m \<and>
           res ! x_node = signed_sum M n_lines (line_m_int u) x_node - m"
proof -
  from assms(1) obtain u cont pres where
    u: "set_start_values catch n_nodes n_lines start_variables node = Inr u" and
    c: "collect (continuity_equ M n_lines u) [0..<n_nodes] = Inr cont" and
    r: "res = cont @ pres"
    by (auto simp: equ_network_def split: sum.splits)
  from collect_nth[OF c] assms(2) have
    len: "length cont = n_nodes" and v: "continuity_equ M n_lines u x_node = Inr (cont ! x_node)"
    by auto
  from continuity_equ_value[OF v] obtain m where
    "node_m_ext u ! x_node = Some m"
    "cont ! x_node = signed_sum M n_lines (line_m_int u) x_node - m" by blast
  then show ?thesis using u r len assms(2) by (auto simp: nth_append)
qed

text \<open>
  C2. Whenever equ\_network\_forerun (or equ\_network\_return) yields its residual vector,
  the entry of a node is the signed sum, per the coupling matrix, of the mass flows of all
  pipes, minus the node's external mass flow (a zero external flow subtracts nothing). So a
  residual within a tolerance means that the signed sum equals the external mass flow within
  that tolerance.
\<close>

theorem continuity_residual:
  assumes "x_node < n_nodes"
    and "equ_network_forerun Mf n_nodes n_lines start_f node_f line rho g = Inr res_f"
    and "equ_network_return Mr n_nodes n_lines start_r node_r line rho g = Inr res_r"
  shows "(\<exists>u m. set_start_values True n_nodes n_lines start_f node_f = Inr u \<and>
           node_m_ext u ! x_node = Some m \<and>
           res_f ! x_node = signed_sum Mf n_lines (line_m_int u) x_node - m \<and>
           (\<forall>eps. \<bar>res_f ! x_node\<bar> \<le> eps \<longrightarrow>
                  \<bar>signed_sum Mf n_lines (line_m_int u) x_node - m\<bar> \<le> eps)) \<and>
         (\<exists>u m. set_start_values False n_nodes n_lines start_r node_r = Inr u \<and>
           node_m_ext u ! x_node = Some m \<and>
           res_r ! x_node = signed_sum Mr n_lines (line_m_int u) x_node - m \<and>
           (\<forall>eps. \<bar>res_r ! x_node\<bar> \<le> eps \<longrightarrow>
                  \<bar>signed_sum Mr n_lines (line_m_int u) x_node - m\<bar> \<le> eps))"
proof -
  have f: "equ_network True Mf n_nodes n_lines start_f node_f line rho g = Inr res_f"
    using assms(2) by (simp add: equ_network_forerun_def)
  have r: "equ_network False Mr n_nodes n_lines start_r node_r line rho g = Inr res_r"
    using assms(3) by (simp add: equ_network_return_def)
  from equ_network_continuity[OF f assms(1)] equ_network_continuity[OF r assms(1)]
  show ?thesis by auto
qed

theorem continuity_residual_witness:
  "(1::nat) < 3 \<and>
   equ_network_forerun [[1, 0], [- 1, 1], [0, - 1]] 3 2 [2, 2, 4, 3, 2]
      \<lparr>node_p_ref = [Some 5, None, None], node_p_start = [Some 5, None, None],
       node_m_ext_check = [None, Some 0, Some (- 2)],
       node_m_ext_start = [None, Some 0, Some (- 2)], node_h_coord = [0, 0, 0]\<rparr>
      \<lparr>line_l = [1, 1], line_dia = [1, 1], line_lambd = [1, 1], line_zeta = [0, 0]\<rparr> 1 1
    = Inr [0, 0, 0, 1 - 32 / pi ^ 2, 1 - 32 / pi ^ 2] \<and>
   equ_network_return [[- 1, 0], [1, - 1], [0, 1]] 3 2 [2, 2, 4, 3, - 2]
      \<lparr>node_p_ref = [Some 5, None, None], node_p_start = [Some 5, None, None],
       node_m_ext_check = [None, Some 0, Some 2],
       node_m_ext_start = [None, Some 0, Some 2], node_h_coord = [0, 0, 0]\<rparr>
      \<lparr>line_l = [1, 1], line_dia = [1, 1], line_lambd = [1, 1], line_zeta = [0, 0]\<rparr> 1 1
    = Inr [0, 0, 0, - 1 - 32 / pi ^ 2, - 1 - 32 / pi ^ 2] \<and>
   signed_sum [[1, 0], [- 1, 1], [0, - 1]] 2 [2, 2] 1 - 0 = 0"
proof -
  have h1: "(1::nat) < 3" by simp
  have h2: "equ_network_forerun [[1, 0], [- 1, 1], [0, - 1]] 3 2 [2, 2, 4, 3, 2]
      \<lparr>node_p_ref = [Some 5, None, None], node_p_start = [Some 5, None, None],
       node_m_ext_check = [None, Some 0, Some (- 2)],
       node_m_ext_start = [None, Some 0, Some (- 2)], node_h_coord = [0, 0, 0]\<rparr>
      \<lparr>line_l = [1, 1], line_dia = [1, 1], line_lambd = [1, 1], line_zeta = [0, 0]\<rparr> 1 1
    = Inr [0, 0, 0, 1 - 32 / pi ^ 2, 1 - 32 / pi ^ 2]"
    by (simp add: equ_network_forerun_def equ_network_def set_start_values_def
       continuity_equ_def pressure_equ_def upt_rec numeral_2_eq_2 numeral_3_eq_3)
  have h3: "equ_network_return [[- 1, 0], [1, - 1], [0, 1]] 3 2 [2, 2, 4, 3, - 2]
      \<lparr>node_p_ref = [Some 5, None, None], node_p_start = [Some 5, None, None],
       node_m_ext_check = [None, Some 0, Some 2],
       node_m_ext_start = [None, Some 0, Some 2], node_h_coord = [0, 0, 0]\<rparr>
      \<lparr>line_l = [1, 1], line_dia = [1, 1], line_lambd = [1, 1], line_zeta = [0, 0]\<rparr> 1 1
    = Inr [0, 0, 0, - 1 - 32 / pi ^ 2, - 1 - 32 / pi ^ 2]"
    by (simp add: equ_network_return_def equ_network_def set_start_values_def
       continuity_equ_def pressure_equ_def upt_rec numeral_2_eq_2 numeral_3_eq_3)
  have u: "set_start_values True 3 2 [2, 2, 4, 3, 2]
      \<lparr>node_p_ref = [Some 5, None, None], node_p_start = [Some 5, None, None],
       node_m_ext_check = [None, Some 0, Some (- 2)],
       node_m_ext_start = [None, Some 0, Some (- 2)], node_h_coord = [0, 0, 0]\<rparr>
     = Inr \<lparr>line_m_int = [2, 2], node_p = [Some 5, Some 4, Some 3],
            node_m_ext = [Some 2, Some 0, Some (- 2)]\<rparr>"
    by (simp add: set_start_values_def upt_rec numeral_2_eq_2 numeral_3_eq_3)
  from continuity_residual[OF h1 h2 h3] u h1 h2 h3 show ?thesis by auto
qed

section \<open>Properties of the reference node validation\<close>

lemma read_nodes_p_ref:
  "read_nodes rows node = Inr node' \<Longrightarrow>
   length (p_ref node') = length (p_ref node) + length (flagged_rows rows)"
proof (induction rows arbitrary: node)
  case Nil
  then show ?case by (simp add: flagged_rows_def)
next
  case (Cons r rows)
  show ?case
  proof (cases "row_active r")
    case True
    with Cons.prems have ok: "\<not> (row_p_ref r \<and> row_feed_in r = None)"
      by (auto simp: Let_def split: if_splits)
    with True Cons.prems Cons.IH show ?thesis
      by (auto simp: Let_def flagged_rows_def split: if_splits)
  next
    case False
    with Cons.prems Cons.IH show ?thesis by (simp add: flagged_rows_def)
  qed
qed

lemma read_nodes_error: "read_nodes rows node = Inl e \<Longrightarrow> e = Exception"
proof (induction rows arbitrary: node)
  case Nil
  then show ?case by simp
next
  case (Cons r rows)
  then show ?case by (auto simp: Let_def split: if_splits)
qed

lemma read_nodes_not_feeder:
  "\<exists>r \<in> set (flagged_rows rows). row_feed_in r = None \<Longrightarrow> read_nodes rows node = Inl Exception"
proof (induction rows arbitrary: node)
  case Nil
  then show ?case by (simp add: flagged_rows_def)
next
  case (Cons r rows)
  show ?case
  proof (cases "row_active r \<and> row_p_ref r \<and> row_feed_in r = None")
    case True
    then show ?thesis by (simp add: Let_def)
  next
    case False
    with Cons.prems have "\<exists>r \<in> set (flagged_rows rows). row_feed_in r = None"
      by (auto simp: flagged_rows_def split: if_splits)
    from Cons.IH[OF this] False show ?thesis by (auto simp: Let_def)
  qed
qed

lemma read_grid_setup_p_ref:
  "read_grid_setup rows read_lines = Inr node \<Longrightarrow>
   length (p_ref node) = length (flagged_rows rows)"
  by (auto simp: read_grid_setup_def split: sum.splits option.splits if_splits
           dest: read_nodes_p_ref)

text \<open>
  C9. If the number of rows that become reference-flagged nodes is not exactly one,
  main\_program ends with an error whatever the main loop would do, so no hydraulic solve
  is attempted. If a reference-flagged row has no feeder, read\_grid\_setup already raises
  an exception.
\<close>

theorem reference_node_validation:
  "(length (flagged_rows rows) \<noteq> 1 \<longrightarrow>
      (\<exists>e. \<forall>main_loop. main_program rows read_lines read_measurements main_loop = Inl e)) \<and>
   ((\<exists>r \<in> set (flagged_rows rows). row_feed_in r = None) \<longrightarrow>
      read_grid_setup rows read_lines = Inl Exception)"
proof (intro conjI impI)
  assume n: "length (flagged_rows rows) \<noteq> 1"
  show "\<exists>e. \<forall>main_loop. main_program rows read_lines read_measurements main_loop = Inl e"
  proof (cases "read_grid_setup rows read_lines")
    case (Inl e)
    then show ?thesis by (simp add: main_program_def)
  next
    case (Inr node)
    from read_grid_setup_p_ref[OF Inr] n have len: "length (p_ref node) \<noteq> 1" by simp
    show ?thesis
    proof (cases "read_measurements node")
      case (Inl e)
      then show ?thesis using Inr by (simp add: main_program_def)
    next
      case (Inr d)
      have c: "length (p_ref node) = 0 \<or> length (p_ref node) > 1" using len by arith
      have "main_program rows read_lines read_measurements main_loop = Inl SystemExit"
        for main_loop
        using \<open>read_grid_setup rows read_lines = Inr node\<close> Inr c
        by (auto simp: main_program_def)
      then show ?thesis by blast
    qed
  qed
next
  assume "\<exists>r \<in> set (flagged_rows rows). row_feed_in r = None"
  from read_nodes_not_feeder[OF this] show "read_grid_setup rows read_lines = Inl Exception"
    by (simp add: read_grid_setup_def)
qed

theorem reference_node_validation_witness:
  "length (flagged_rows
      [\<lparr>row_active = True, row_p_ref = True, row_feed_in = Some ''F1'', row_gapfilling = False\<rparr>,
       \<lparr>row_active = True, row_p_ref = True, row_feed_in = Some ''F2'', row_gapfilling = False\<rparr>])
     \<noteq> 1 \<and>
   main_program
      [\<lparr>row_active = True, row_p_ref = True, row_feed_in = Some ''F1'', row_gapfilling = False\<rparr>,
       \<lparr>row_active = True, row_p_ref = True, row_feed_in = Some ''F2'', row_gapfilling = False\<rparr>]
      None (\<lambda>node. Inr ()) (\<lambda>node d. Inr True) \<noteq> Inr True \<and>
   row_feed_in \<lparr>row_active = True, row_p_ref = True, row_feed_in = None, row_gapfilling = False\<rparr>
     = None \<and>
   read_grid_setup
      [\<lparr>row_active = True, row_p_ref = True, row_feed_in = None, row_gapfilling = False\<rparr>] None
     = Inl Exception"
proof -
  let ?r1 = "\<lparr>row_active = True, row_p_ref = True, row_feed_in = Some ''F1'', row_gapfilling = False\<rparr>"
  let ?r2 = "\<lparr>row_active = True, row_p_ref = True, row_feed_in = Some ''F2'', row_gapfilling = False\<rparr>"
  let ?r3 = "\<lparr>row_active = True, row_p_ref = True, row_feed_in = None, row_gapfilling = False\<rparr>"
  have h1: "length (flagged_rows [?r1, ?r2]) \<noteq> 1" by (simp add: flagged_rows_def)
  have h2: "\<exists>r \<in> set (flagged_rows [?r3]). row_feed_in r = None" by (simp add: flagged_rows_def)
  from reference_node_validation[of "[?r1, ?r2]" None "\<lambda>node. Inr ()"] h1
  obtain e where "\<forall>main_loop. main_program [?r1, ?r2] None (\<lambda>node. Inr ()) main_loop
      = (Inl e :: py_error + bool)"
    by blast
  then have a: "main_program [?r1, ?r2] None (\<lambda>node. Inr ()) (\<lambda>node d. Inr True) \<noteq> Inr True"
    by simp
  from reference_node_validation[of "[?r3]" None] h2
  have b: "read_grid_setup [?r3] None = Inl Exception" by blast
  show ?thesis using h1 a b by simp
qed

section \<open>Properties of the node energy balances\<close>

lemma mix_sums_eq:
  "mix_sums row t_out m_line xs (a, b) =
     (a + (\<Sum>x\<leftarrow>filter (\<lambda>x. row ! x = - 1) xs. t_out ! x * m_line ! x),
      b + (\<Sum>x\<leftarrow>filter (\<lambda>x. row ! x = - 1) xs. m_line ! x))"
  by (induction xs arbitrary: a b) auto

text \<open>
  C5 (as amended). Let a consumer node have the positive external return mass flow m and
  let \<open>T_b = T_f - Q * 1000 / (m * c_p)\<close>. If no return pipe ends at the node, the first
  energy balance stores \<open>T_b\<close>, or the soil temperature if \<open>T_b\<close> is below it. A consumer
  node reached in the propagation loop stores, when \<open>T_b\<close> is not below the soil
  temperature, the mass-flow-weighted mix of \<open>T_b\<close> and the outlet temperatures of the
  return pipes that end at the node.
\<close>

theorem consumer_return_temperature:
  assumes "m_ext node ! x_node = m" and "0 < m"
    and "feeder node ! x_node = None"
    and "Q_dot_sim node ! x_node = Some Q"
    and "V_dot_sim node ! x_node = Some V" and "m = V * rho / 1000"
    and "0 < rho"
    and "T_b = T_f - Q * 1000 / (m * c_p)"
    and "lines_in = filter (\<lambda>x_line. M ! x_node ! x_line = - 1) [0..<n_lines]"
  shows "(count_list (M ! x_node) (- 1) = 0 \<longrightarrow>
            first_balance_return M node rho c_p temp_soil cntr_time_hyd T_f T_f_prev T_r_prev x_node
              = Some (Inr (if T_b < temp_soil then temp_soil else T_b))) \<and>
         (temp_soil \<le> T_b \<and> m + (\<Sum>x_line\<leftarrow>lines_in. m_line ! x_line) \<noteq> 0 \<longrightarrow>
            node_balance_return M n_lines node rho c_p temp_soil t_out m_line T_f t_prev x_node
              = Inr (Some (Finite
                  ((T_b * m + (\<Sum>x_line\<leftarrow>lines_in. t_out ! x_line * m_line ! x_line)) /
                   (m + (\<Sum>x_line\<leftarrow>lines_in. m_line ! x_line))))))"
proof -
  have rho: "rho \<noteq> 0" using assms(7) by simp
  have d1: "m / rho * 1000 / 1000 * rho * c_p = m * c_p" using rho by simp
  have d2: "V / 1000 * rho * c_p = m * c_p" using assms(6) by simp
  have tc: "T_f - Q * 1000 / (m_ext node ! x_node / rho * 1000 / 1000 * rho * c_p) = T_b"
    unfolding assms(1) d1 assms(8) by (rule refl)
  have te: "T_f - Q * 1000 / (V / 1000 * rho * c_p) = T_b"
    unfolding d2 assms(8) by (rule refl)
  have tb: "T_f - Q * 1000 / (m_ext node ! x_node * c_p) = T_b"
    unfolding assms(1) assms(8) by (rule refl)
  have mne: "m_ext node ! x_node \<noteq> 0" "0 \<le> m_ext node ! x_node" "0 < m_ext node ! x_node"
    using assms(1,2) by simp_all
  have p1: "first_balance_return M node rho c_p temp_soil cntr_time_hyd T_f T_f_prev T_r_prev x_node
              = Some (Inr (if T_b < temp_soil then temp_soil else T_b))"
    if "count_list (M ! x_node) (- 1) = 0"
    unfolding first_balance_return_def Let_def
    using that mne assms(3,4) rho tb by simp
  have mx: "mix_sums (M ! x_node) t_out m_line [0..<n_lines] (T_b * m, m) =
      (T_b * m + (\<Sum>x_line\<leftarrow>lines_in. t_out ! x_line * m_line ! x_line),
       m + (\<Sum>x_line\<leftarrow>lines_in. m_line ! x_line))"
    unfolding assms(9) by (rule mix_sums_eq)
  have nb: "node_balance_return M n_lines node rho c_p temp_soil t_out m_line T_f t_prev x_node =
      (case mix_sums (M ! x_node) t_out m_line [0..<n_lines]
              ((T_f - Q * 1000 / (V / 1000 * rho * c_p)) * m_ext node ! x_node,
               m_ext node ! x_node) of
         (sum_1, sum_2) \<Rightarrow>
           if sum_2 \<noteq> 0 then Inr (Some (Finite (sum_1 / sum_2)))
           else Inr (Some (Finite t_prev)))"
    using mne assms(3,4,5) by (simp add: node_balance_return_def Let_def)
  have p2: "node_balance_return M n_lines node rho c_p temp_soil t_out m_line T_f t_prev x_node
              = Inr (Some (Finite
                  ((T_b * m + (\<Sum>x_line\<leftarrow>lines_in. t_out ! x_line * m_line ! x_line)) /
                   (m + (\<Sum>x_line\<leftarrow>lines_in. m_line ! x_line)))))"
    if "m + (\<Sum>x_line\<leftarrow>lines_in. m_line ! x_line) \<noteq> 0"
    unfolding nb te assms(1) mx using that by simp
  show ?thesis using p1 p2 by blast
qed

theorem consumer_return_temperature_witness:
  "first_balance_return [[1], [- 1]]
      \<lparr>m_ext = [1, 1], feeder = [None, None], ref_nodes = [],
       V_dot_feed = [None, None], temp_flow_feed = [None, None],
       Q_dot_sim = [Some 40, Some 40], V_dot_sim = [Some 1, Some 1]\<rparr>
      1000 1000 10 0 80 0 0 0 = Some (Inr 40) \<and>
   node_balance_return [[1], [- 1]] 1
      \<lparr>m_ext = [1, 1], feeder = [None, None], ref_nodes = [],
       V_dot_feed = [None, None], temp_flow_feed = [None, None],
       Q_dot_sim = [Some 40, Some 40], V_dot_sim = [Some 1, Some 1]\<rparr>
      1000 1000 10 [50] [1] 80 0 1 = Inr (Some (Finite 45))"
proof -
  let ?node = "\<lparr>m_ext = [1, 1], feeder = [None, None], ref_nodes = [],
       V_dot_feed = [None, None], temp_flow_feed = [None, None],
       Q_dot_sim = [Some 40, Some 40], V_dot_sim = [Some 1, Some 1]\<rparr>"
  let ?M = "[[1], [- 1]] :: matrix"
  have a: "count_list (?M ! 0) (- 1) = 0" by simp
  have A: "first_balance_return ?M ?node 1000 1000 10 0 80 0 0 0
             = Some (Inr (if (40::real) < 10 then 10 else 40))"
    using consumer_return_temperature[where node = ?node and x_node = 0 and m = 1 and Q = 40
        and V = 1 and rho = 1000 and T_b = 40 and T_f = 80 and c_p = 1000 and lines_in = "[]"
        and M = ?M and n_lines = 1 and temp_soil = 10 and cntr_time_hyd = 0 and T_f_prev = 0
        and T_r_prev = 0] a
    by simp
  have B: "node_balance_return ?M 1 ?node 1000 1000 10 [50] [1] 80 0 1
             = Inr (Some (Finite ((40 * 1 + (\<Sum>x\<leftarrow>[0]. [50] ! x * [1] ! x)) /
                                  (1 + (\<Sum>x\<leftarrow>[0]. [1] ! x)))))"
    using consumer_return_temperature[where node = ?node and x_node = 1 and m = 1 and Q = 40
        and V = 1 and rho = 1000 and T_b = 40 and T_f = 80 and c_p = 1000 and lines_in = "[0]"
        and M = ?M and n_lines = 1 and temp_soil = 10 and t_out = "[50]" and m_line = "[1]"
        and t_prev = 0]
    by simp
  show ?thesis using A B by simp
qed

text \<open>
  C5 as stated fails at a consumer node with an incoming return pipe: with
  \<open>T_f - Q * 1000 / (m * c_p) = 40\<close>, above the soil temperature 10, and a pipe delivering
  the mass flow 1 at 50 degrees the stored temperature is the mix 45.
\<close>

theorem consumer_return_temperature_counterexample:
  "m_ext \<lparr>m_ext = [1, 1], feeder = [None, None], ref_nodes = [],
       V_dot_feed = [None, None], temp_flow_feed = [None, None],
       Q_dot_sim = [Some 40, Some 40], V_dot_sim = [Some 1, Some 1]\<rparr> ! 1 > 0 \<and>
   (10::real) \<le> 80 - 40 * 1000 / (1 * 1000) \<and>
   node_balance_return [[1], [- 1]] 1
      \<lparr>m_ext = [1, 1], feeder = [None, None], ref_nodes = [],
       V_dot_feed = [None, None], temp_flow_feed = [None, None],
       Q_dot_sim = [Some 40, Some 40], V_dot_sim = [Some 1, Some 1]\<rparr>
      1000 1000 10 [50] [1] 80 0 1 \<noteq> Inr (Some (Finite (80 - 40 * 1000 / (1 * 1000))))"
  by (simp add: node_balance_return_def)

text \<open>
  C6. A feeder that is not the reference node, has a positive external mass flow and an
  incoming pipe: the forerun energy balance raises TypeError instead of storing the
  weighted average.
\<close>

theorem feeder_mixing_type_error:
  "node_balance_forerun [[1, 0], [- 1, 1], [0, - 1]] 2
      \<lparr>m_ext = [1, 1 / 2, - 3 / 2], feeder = [Some ''A'', Some ''B'', None], ref_nodes = [0],
       V_dot_feed = [Some 1, Some (1 / 2), None], temp_flow_feed = [Some 90, Some 85, None],
       Q_dot_sim = [None, None, Some 40], V_dot_sim = [None, None, Some (3 / 2)]\<rparr>
      1000 [80, 80] [1, 3 / 2] 1 = Inl TypeError"
  by (simp add: node_balance_forerun_def truthy_def)

text \<open>
  C7. A node without external mass flow whose two incoming pipes carry no flow: the forerun
  energy balance divides by the zero sum (the stored value is nan), while the return energy
  balance on the same data falls back to the previous temperature.
\<close>

theorem forerun_mixing_unguarded:
  "node_balance_forerun [[1, 0, 0], [0, 1, 0], [- 1, - 1, 1], [0, 0, - 1]] 3
      \<lparr>m_ext = [0, 0, 0, 0], feeder = [Some ''A'', None, None, None], ref_nodes = [0],
       V_dot_feed = [Some 0, None, None, None], temp_flow_feed = [Some 90, None, None, None],
       Q_dot_sim = [None, None, None, Some 0], V_dot_sim = [None, None, None, Some 0]\<rparr>
      1000 [60, 70, 65] [0, 0, 0] 2 = Inr (Some NanInf) \<and>
   node_balance_return [[1, 0, 0], [0, 1, 0], [- 1, - 1, 1], [0, 0, - 1]] 3
      \<lparr>m_ext = [0, 0, 0, 0], feeder = [Some ''A'', None, None, None], ref_nodes = [0],
       V_dot_feed = [Some 0, None, None, None], temp_flow_feed = [Some 90, None, None, None],
       Q_dot_sim = [None, None, None, Some 0], V_dot_sim = [None, None, None, Some 0]\<rparr>
      1000 4190 10 [60, 70, 65] [0, 0, 0] 80 55 2 = Inr (Some (Finite 55))"
  by (simp add: node_balance_forerun_def node_balance_return_def passive_node_forerun_def
        np_div_def upt_rec numeral_3_eq_3)

text \<open>
  C8. A feeder with a positive external return mass flow and an incoming return pipe is
  given the mixing temperature of its incoming pipes by the propagation loop and no
  ValueError is raised; only the first energy balance, for a feeder without incoming return
  pipe, raises it.
\<close>

theorem feeder_reversal_not_raised:
  "m_ext \<lparr>m_ext = [- 2, 1, 1], feeder = [Some ''A'', Some ''B'', None], ref_nodes = [0],
       V_dot_feed = [Some 2, Some (- 1), None], temp_flow_feed = [Some 90, Some 85, None],
       Q_dot_sim = [None, None, Some 40], V_dot_sim = [None, None, Some 1]\<rparr> ! 1 > 0 \<and>
   node_balance_return [[0, - 1], [- 1, 1], [1, 0]] 2
      \<lparr>m_ext = [- 2, 1, 1], feeder = [Some ''A'', Some ''B'', None], ref_nodes = [0],
       V_dot_feed = [Some 2, Some (- 1), None], temp_flow_feed = [Some 90, Some 85, None],
       Q_dot_sim = [None, None, Some 40], V_dot_sim = [None, None, Some 1]\<rparr>
      1000 4190 10 [50, 50] [1, 2] 80 55 1 = Inr (Some (Finite 50)) \<and>
   first_balance_return [[- 1], [1]]
      \<lparr>m_ext = [- 1, 1], feeder = [Some ''A'', Some ''B''], ref_nodes = [0],
       V_dot_feed = [Some 1, Some (- 1)], temp_flow_feed = [Some 90, Some 85],
       Q_dot_sim = [None, None], V_dot_sim = [None, None]\<rparr>
      1000 4190 10 0 80 80 55 1 = Some (Inl ValueError)"
  by (simp add: node_balance_return_def first_balance_return_def np_div_def upt_rec
        numeral_2_eq_2)

section \<open>Properties of the forerun propagation\<close>

lemma passive_outcome:
  "(case passive_node_forerun row n_lines t_out m_line of Inl e \<Rightarrow> Inl e | Inr v \<Rightarrow> Inr (v \<noteq> None))
   = (if count_list row (- 1) = 1 then
        (case first_line_in row n_lines of None \<Rightarrow> Inl NameError | Some x_line_ref \<Rightarrow> Inr True)
      else if count_list row (- 1) = 0 then Inl ZeroDivisionError
      else Inr True)"
  by (simp add: passive_node_forerun_def split: option.splits prod.splits)

lemma node_balance_outcome_forerun:
  "node_balance_outcome M n_lines node x_node =
     (case node_balance_forerun M n_lines node rho t_out m_line x_node of
        Inl e \<Rightarrow> Inl e
      | Inr v \<Rightarrow> Inr (v \<noteq> None))"
  unfolding node_balance_outcome_def node_balance_forerun_def Let_def
  by (simp add: passive_outcome split: option.splits prod.splits)

lemma count_list_unique:
  "count_list xs v = 1 \<Longrightarrow> i < length xs \<Longrightarrow> j < length xs \<Longrightarrow> xs ! i = v \<Longrightarrow> xs ! j = v
   \<Longrightarrow> i = j"
proof (induction xs arbitrary: i j)
  case Nil
  then show ?case by simp
next
  case (Cons a xs)
  show ?case
  proof (cases "a = v")
    case True
    with Cons.prems(1) have z: "count_list xs v = 0" by simp
    then have nv: "v \<notin> set xs" by (simp add: count_list_0_iff)
    have "i = 0"
    proof (cases i)
      case (Suc i')
      with Cons.prems(2,4) have "xs ! i' = v" "i' < length xs" by simp_all
      with nv show ?thesis by (metis nth_mem)
    qed simp
    moreover have "j = 0"
    proof (cases j)
      case (Suc j')
      with Cons.prems(3,5) have "xs ! j' = v" "j' < length xs" by simp_all
      with nv show ?thesis by (metis nth_mem)
    qed simp
    ultimately show ?thesis by simp
  next
    case False
    with Cons.prems(1) have c: "count_list xs v = 1" by simp
    from False Cons.prems(4) obtain i' where i: "i = Suc i'" by (cases i) auto
    from False Cons.prems(5) obtain j' where j: "j = Suc j'" by (cases j) auto
    from Cons.IH[OF c, of i' j'] Cons.prems i j show ?thesis by simp
  qed
qed

lemma count_list_pos_nth: "count_list xs v > 0 \<Longrightarrow> \<exists>i < length xs. xs ! i = v"
  by (metis count_list_0_iff in_set_conv_nth not_gr_zero)

lemma count_list_zero_nth: "count_list xs v = 0 \<Longrightarrow> i < length xs \<Longrightarrow> xs ! i \<noteq> v"
  by (metis count_list_0_iff nth_mem)

lemma column_nth:
  "is_matrix n_nodes n_lines M \<Longrightarrow> a < n_nodes \<Longrightarrow> column M l ! a = M ! a ! l"
  by (simp add: column_def is_matrix_def)

lemma column_length: "is_matrix n_nodes n_lines M \<Longrightarrow> length (column M l) = n_nodes"
  by (simp add: column_def is_matrix_def)

lemma row_length: "is_matrix n_nodes n_lines M \<Longrightarrow> a < n_nodes \<Longrightarrow> length (M ! a) = n_lines"
  by (simp add: is_matrix_def list_all_length)

lemma start_unique:
  assumes "is_matrix n_nodes n_lines M" "column_ok (column M l)"
    "a < n_nodes" "b < n_nodes" "M ! a ! l = 1" "M ! b ! l = 1"
  shows "a = b"
proof -
  have "count_list (column M l) 1 = 1" using assms(2) by (simp add: column_ok_def)
  from count_list_unique[OF this, of a b] assms show ?thesis
    by (simp add: column_nth column_length)
qed

lemma start_exists:
  assumes "is_matrix n_nodes n_lines M" "column_ok (column M l)"
  shows "\<exists>a < n_nodes. M ! a ! l = 1"
proof -
  have "count_list (column M l) 1 > 0" using assms(2) by (simp add: column_ok_def)
  from count_list_pos_nth[OF this] obtain a where "a < length (column M l)" "column M l ! a = 1"
    by blast
  then show ?thesis using assms(1) by (auto simp: column_nth column_length)
qed

lemma no_line_in:
  assumes "is_matrix n_nodes n_lines M" "a < n_nodes"
  shows "(count_list (M ! a) (- 1) = 0) = (\<forall>l < n_lines. M ! a ! l \<noteq> - 1)"
proof
  assume "count_list (M ! a) (- 1) = 0"
  then show "\<forall>l < n_lines. M ! a ! l \<noteq> - 1"
    using count_list_zero_nth[of "M ! a" "- 1"] row_length[OF assms] by auto
next
  assume "\<forall>l < n_lines. M ! a ! l \<noteq> - 1"
  then have "- 1 \<notin> set (M ! a)" using row_length[OF assms] by (auto simp: in_set_conv_nth)
  then show "count_list (M ! a) (- 1) = 0" by (simp add: count_list_0_iff)
qed

lemma some_line_out:
  assumes "is_matrix n_nodes n_lines M" "a < n_nodes" "count_list (M ! a) 1 > 0"
  shows "\<exists>l < n_lines. M ! a ! l = 1"
  using count_list_pos_nth[OF assms(3)] row_length[OF assms(1,2)] by auto

lemma first_lines_length:
  "length (line_calc (first_lines row x xs s)) = length (line_calc s) \<and>
   length (node_calc (first_lines row x xs s)) = length (node_calc s)"
  by (induction xs arbitrary: s) auto

lemma first_lines_line_calc:
  "\<forall>l \<in> set xs. l < length (line_calc s) \<Longrightarrow> l < length (line_calc s) \<Longrightarrow>
   line_calc (first_lines row x xs s) ! l = (line_calc s ! l \<or> (l \<in> set xs \<and> row ! l = 1))"
proof (induction xs arbitrary: s)
  case Nil
  then show ?case by simp
next
  case (Cons a xs)
  then show ?case by (auto simp: nth_list_update)
qed

lemma first_lines_node_calc:
  "x < length (node_calc s) \<Longrightarrow> y < length (node_calc s) \<Longrightarrow>
   node_calc (first_lines row x xs s) ! y =
     (node_calc s ! y \<or> (y = x \<and> (\<exists>l \<in> set xs. row ! l = 1)))"
proof (induction xs arbitrary: s)
  case Nil
  then show ?case by simp
next
  case (Cons a xs)
  then show ?case by (auto simp: nth_list_update)
qed

lemma first_lines_count_node:
  "count_list (events (first_lines row x xs s)) (NodeAssigned y) =
   count_list (events s) (NodeAssigned y)"
  by (induction xs arbitrary: s) auto

lemma first_lines_count_line:
  "distinct xs \<Longrightarrow>
   count_list (events (first_lines row x xs s)) (LineAdvanced l) =
   count_list (events s) (LineAdvanced l) + (if l \<in> set xs \<and> row ! l = 1 then 1 else 0)"
  by (induction xs arbitrary: s) auto

lemma first_balances_Cons:
  "first_balances_forerun M n_lines node (a # xs) s =
     (if seed M node a then
        (case temp_flow_feed node ! a of
           None \<Rightarrow> Inl TypeError
         | Some T \<Rightarrow> first_balances_forerun M n_lines node xs
             (first_lines (M ! a) a [0..<n_lines] (s\<lparr>events := events s @ [NodeAssigned a]\<rparr>)))
      else first_balances_forerun M n_lines node xs s)"
  by (simp add: seed_def Let_def)

lemma first_balances_ok:
  "\<forall>x \<in> set xs. seed M node x \<longrightarrow> temp_flow_feed node ! x \<noteq> None \<Longrightarrow>
   \<exists>s'. first_balances_forerun M n_lines node xs s = Inr s'"
proof (induction xs arbitrary: s)
  case Nil
  then show ?case by simp
next
  case (Cons a xs)
  then show ?case unfolding first_balances_Cons by (auto split: option.splits)
qed

lemma first_balances_length:
  "first_balances_forerun M n_lines node xs s = Inr s' \<Longrightarrow>
   length (line_calc s') = length (line_calc s) \<and> length (node_calc s') = length (node_calc s)"
proof (induction xs arbitrary: s)
  case Nil
  then show ?case by simp
next
  case (Cons a xs)
  then show ?case unfolding first_balances_Cons
    by (auto split: option.splits if_splits simp: first_lines_length)
qed

lemma first_balances_line_calc:
  "first_balances_forerun M n_lines node xs s = Inr s' \<Longrightarrow> length (line_calc s) = n_lines \<Longrightarrow>
   l < n_lines \<Longrightarrow>
   line_calc s' ! l = (line_calc s ! l \<or> (\<exists>x \<in> set xs. seed M node x \<and> M ! x ! l = 1))"
proof (induction xs arbitrary: s)
  case Nil
  then show ?case by simp
next
  case (Cons a xs)
  show ?case
  proof (cases "seed M node a")
    case True
    with Cons.prems(1) obtain T where
      r: "first_balances_forerun M n_lines node xs
            (first_lines (M ! a) a [0..<n_lines] (s\<lparr>events := events s @ [NodeAssigned a]\<rparr>))
          = Inr s'"
      unfolding first_balances_Cons by (auto split: option.splits)
    let ?s1 = "first_lines (M ! a) a [0..<n_lines] (s\<lparr>events := events s @ [NodeAssigned a]\<rparr>)"
    have len: "length (line_calc ?s1) = n_lines"
      using Cons.prems(2) by (simp add: first_lines_length)
    have l1: "line_calc ?s1 ! l = (line_calc s ! l \<or> M ! a ! l = 1)"
      using first_lines_line_calc[of "[0..<n_lines]" "s\<lparr>events := events s @ [NodeAssigned a]\<rparr>"
          l "M ! a" a] Cons.prems(2,3)
      by simp
    from Cons.IH[OF r len Cons.prems(3)] l1 True show ?thesis by auto
  next
    case False
    with Cons.prems(1) have "first_balances_forerun M n_lines node xs s = Inr s'"
      unfolding first_balances_Cons by simp
    from Cons.IH[OF this Cons.prems(2,3)] False show ?thesis by auto
  qed
qed

lemma first_balances_node_calc:
  "first_balances_forerun M n_lines node xs s = Inr s' \<Longrightarrow>
   \<forall>x \<in> set xs. x < length (node_calc s) \<Longrightarrow> y < length (node_calc s) \<Longrightarrow>
   node_calc s' ! y =
     (node_calc s ! y \<or> (y \<in> set xs \<and> seed M node y \<and> (\<exists>l < n_lines. M ! y ! l = 1)))"
proof (induction xs arbitrary: s)
  case Nil
  then show ?case by simp
next
  case (Cons a xs)
  show ?case
  proof (cases "seed M node a")
    case True
    let ?s0 = "s\<lparr>events := events s @ [NodeAssigned a]\<rparr>"
    let ?s1 = "first_lines (M ! a) a [0..<n_lines] ?s0"
    from True Cons.prems(1) have r: "first_balances_forerun M n_lines node xs ?s1 = Inr s'"
      unfolding first_balances_Cons by (auto split: option.splits)
    have len: "length (node_calc ?s1) = length (node_calc s)"
      by (simp add: first_lines_length)
    have a: "a < length (node_calc s)" using Cons.prems(2) by simp
    have n1: "node_calc ?s1 ! y = (node_calc s ! y \<or> (y = a \<and> (\<exists>l < n_lines. M ! a ! l = 1)))"
      using first_lines_node_calc[of a ?s0 y "M ! a" "[0..<n_lines]"] a Cons.prems(3)
      by auto
    have "\<forall>x \<in> set xs. x < length (node_calc ?s1)" using Cons.prems(2) len by simp
    from Cons.IH[OF r this] Cons.prems(3) len n1 True show ?thesis by auto
  next
    case False
    with Cons.prems(1) have "first_balances_forerun M n_lines node xs s = Inr s'"
      unfolding first_balances_Cons by simp
    from Cons.IH[OF this] Cons.prems(2,3) False show ?thesis by auto
  qed
qed

lemma first_balances_count_node:
  "first_balances_forerun M n_lines node xs s = Inr s' \<Longrightarrow> distinct xs \<Longrightarrow>
   count_list (events s') (NodeAssigned y) =
     count_list (events s) (NodeAssigned y) + (if y \<in> set xs \<and> seed M node y then 1 else 0)"
proof (induction xs arbitrary: s)
  case Nil
  then show ?case by simp
next
  case (Cons a xs)
  show ?case
  proof (cases "seed M node a")
    case True
    let ?s0 = "s\<lparr>events := events s @ [NodeAssigned a]\<rparr>"
    let ?s1 = "first_lines (M ! a) a [0..<n_lines] ?s0"
    from True Cons.prems(1) have r: "first_balances_forerun M n_lines node xs ?s1 = Inr s'"
      unfolding first_balances_Cons by (auto split: option.splits)
    have c1: "count_list (events ?s1) (NodeAssigned y) =
        count_list (events s) (NodeAssigned y) + (if y = a then 1 else 0)"
      by (simp add: first_lines_count_node)
    from Cons.IH[OF r] Cons.prems(2) c1 True show ?thesis by auto
  next
    case False
    with Cons.prems(1) have "first_balances_forerun M n_lines node xs s = Inr s'"
      unfolding first_balances_Cons by simp
    from Cons.IH[OF this] Cons.prems(2) False show ?thesis by auto
  qed
qed

lemma first_balances_count_line:
  "first_balances_forerun M n_lines node xs s = Inr s' \<Longrightarrow> l < n_lines \<Longrightarrow>
   count_list (events s') (LineAdvanced l) =
     count_list (events s) (LineAdvanced l) +
     length (filter (\<lambda>x. seed M node x \<and> M ! x ! l = 1) xs)"
proof (induction xs arbitrary: s)
  case Nil
  then show ?case by simp
next
  case (Cons a xs)
  show ?case
  proof (cases "seed M node a")
    case True
    let ?s0 = "s\<lparr>events := events s @ [NodeAssigned a]\<rparr>"
    let ?s1 = "first_lines (M ! a) a [0..<n_lines] ?s0"
    from True Cons.prems(1) have r: "first_balances_forerun M n_lines node xs ?s1 = Inr s'"
      unfolding first_balances_Cons by (auto split: option.splits)
    have c1: "count_list (events ?s1) (LineAdvanced l) =
        count_list (events s) (LineAdvanced l) + (if M ! a ! l = 1 then 1 else 0)"
      using first_lines_count_line[of "[0..<n_lines]" "M ! a" a ?s0 l] Cons.prems(2) by simp
    from Cons.IH[OF r Cons.prems(2)] c1 True show ?thesis by auto
  next
    case False
    with Cons.prems(1) have "first_balances_forerun M n_lines node xs s = Inr s'"
      unfolding first_balances_Cons by simp
    from Cons.IH[OF this Cons.prems(2)] False show ?thesis by auto
  qed
qed

lemma node_balances_ok:
  "\<forall>x \<in> set xs. now ! x \<longrightarrow> node_balance_outcome M n_lines node x = Inr True \<Longrightarrow>
   \<exists>s'. node_balances M n_lines node now xs s = Inr s'"
  by (induction xs arbitrary: s) auto

lemma node_balances_line_calc:
  "node_balances M n_lines node now xs s = Inr s' \<Longrightarrow>
   line_calc s' = line_calc s \<and> length (node_calc s') = length (node_calc s)"
  by (induction xs arbitrary: s) (auto split: if_splits sum.splits)

lemma node_balances_node_calc:
  "node_balances M n_lines node now xs s = Inr s' \<Longrightarrow>
   \<forall>x \<in> set xs. now ! x \<longrightarrow> node_balance_outcome M n_lines node x = Inr True \<Longrightarrow>
   \<forall>x \<in> set xs. x < length (node_calc s) \<Longrightarrow> y < length (node_calc s) \<Longrightarrow>
   node_calc s' ! y = (node_calc s ! y \<or> (y \<in> set xs \<and> now ! y))"
proof (induction xs arbitrary: s)
  case Nil
  then show ?case by simp
next
  case (Cons a xs)
  show ?case
  proof (cases "now ! a")
    case True
    let ?s1 = "s\<lparr>node_calc := (node_calc s)[a := True], events := events s @ [NodeAssigned a]\<rparr>"
    from True Cons.prems(1,2) have r: "node_balances M n_lines node now xs ?s1 = Inr s'"
      by simp
    have "\<forall>x \<in> set xs. now ! x \<longrightarrow> node_balance_outcome M n_lines node x = Inr True"
      using Cons.prems(2) by simp
    moreover have "\<forall>x \<in> set xs. x < length (node_calc ?s1)" using Cons.prems(3) by simp
    moreover have "y < length (node_calc ?s1)" using Cons.prems(4) by simp
    ultimately have "node_calc s' ! y = (node_calc ?s1 ! y \<or> (y \<in> set xs \<and> now ! y))"
      using Cons.IH[OF r] by blast
    then show ?thesis using True Cons.prems(3,4) by (auto simp: nth_list_update)
  next
    case False
    with Cons.prems(1) have r: "node_balances M n_lines node now xs s = Inr s'" by simp
    from Cons.IH[OF r] Cons.prems(2,3,4) False show ?thesis by auto
  qed
qed

lemma node_balances_count_node:
  "node_balances M n_lines node now xs s = Inr s' \<Longrightarrow>
   \<forall>x \<in> set xs. now ! x \<longrightarrow> node_balance_outcome M n_lines node x = Inr True \<Longrightarrow>
   distinct xs \<Longrightarrow>
   count_list (events s') (NodeAssigned y) =
     count_list (events s) (NodeAssigned y) + (if y \<in> set xs \<and> now ! y then 1 else 0)"
proof (induction xs arbitrary: s)
  case Nil
  then show ?case by simp
next
  case (Cons a xs)
  show ?case
  proof (cases "now ! a")
    case True
    let ?s1 = "s\<lparr>node_calc := (node_calc s)[a := True], events := events s @ [NodeAssigned a]\<rparr>"
    from True Cons.prems(1,2) have r: "node_balances M n_lines node now xs ?s1 = Inr s'"
      by simp
    have "\<forall>x \<in> set xs. now ! x \<longrightarrow> node_balance_outcome M n_lines node x = Inr True"
      using Cons.prems(2) by simp
    from Cons.IH[OF r this] Cons.prems(3) True show ?thesis by auto
  next
    case False
    with Cons.prems(1) have r: "node_balances M n_lines node now xs s = Inr s'" by simp
    from Cons.IH[OF r] Cons.prems(2,3) False show ?thesis by auto
  qed
qed

lemma node_balances_count_line:
  "node_balances M n_lines node now xs s = Inr s' \<Longrightarrow>
   count_list (events s') (LineAdvanced l) = count_list (events s) (LineAdvanced l)"
  by (induction xs arbitrary: s) (auto split: if_splits sum.splits)

lemma line_balances_node_calc:
  "node_calc (line_balances now xs s) = node_calc s \<and>
   length (line_calc (line_balances now xs s)) = length (line_calc s)"
  by (induction xs arbitrary: s) auto

lemma line_balances_line_calc:
  "\<forall>x \<in> set xs. x < length (line_calc s) \<Longrightarrow> l < length (line_calc s) \<Longrightarrow>
   line_calc (line_balances now xs s) ! l = (line_calc s ! l \<or> (l \<in> set xs \<and> now ! l))"
proof (induction xs arbitrary: s)
  case Nil
  then show ?case by simp
next
  case (Cons a xs)
  then show ?case by (auto simp: nth_list_update)
qed

lemma line_balances_count_line:
  "distinct xs \<Longrightarrow>
   count_list (events (line_balances now xs s)) (LineAdvanced l) =
     count_list (events s) (LineAdvanced l) + (if l \<in> set xs \<and> now ! l then 1 else 0)"
  by (induction xs arbitrary: s) auto

lemma line_balances_count_node:
  "count_list (events (line_balances now xs s)) (NodeAssigned y) =
     count_list (events s) (NodeAssigned y)"
  by (induction xs arbitrary: s) auto

lemma filter_upt_unique:
  assumes "\<And>a b. a < n \<Longrightarrow> b < n \<Longrightarrow> P a \<Longrightarrow> P b \<Longrightarrow> a = b"
  shows "length (filter P [0..<n]) = (if \<exists>a < n. P a then 1 else 0)"
proof (cases "\<exists>a < n. P a")
  case True
  then obtain a where a: "a < n" "P a" by blast
  have "set (filter P [0..<n]) = {a}" using a assms by auto
  moreover have "distinct (filter P [0..<n])" by simp
  ultimately have "length (filter P [0..<n]) = card {a}" using distinct_card by metis
  then show ?thesis using True by simp
next
  case False
  then have "filter P [0..<n] = []" by (auto simp: filter_empty_conv)
  then show ?thesis using False by simp
qed

lemma first_balances_inv:
  assumes m: "is_matrix n_nodes n_lines M"
    and c: "\<forall>l < n_lines. column_ok (column M l)"
    and src: "\<forall>x < n_nodes. count_list (M ! x) (- 1) = 0 \<longrightarrow> source_node M node x"
  shows "\<exists>s. first_balances_forerun M n_lines node [0..<n_nodes]
             \<lparr>line_calc = replicate n_lines False, node_calc = replicate n_nodes False,
              events = []\<rparr> = Inr s \<and> prop_inv M n_nodes n_lines s"
proof -
  let ?s0 = "\<lparr>line_calc = replicate n_lines False, node_calc = replicate n_nodes False,
              events = []\<rparr>"
  have sd: "seed M node x = source_node M node x" if "x < n_nodes" for x
    using src that by (auto simp: seed_def source_node_def)
  have "\<forall>x \<in> set [0..<n_nodes]. seed M node x \<longrightarrow> temp_flow_feed node ! x \<noteq> None"
    using sd by (auto simp: source_node_def)
  from first_balances_ok[OF this] obtain s where
    s: "first_balances_forerun M n_lines node [0..<n_nodes] ?s0 = Inr s" by blast
  have len: "length (line_calc s) = n_lines" "length (node_calc s) = n_nodes"
    using first_balances_length[OF s] by simp_all
  have lc: "line_calc s ! l = (\<exists>x < n_nodes. seed M node x \<and> M ! x ! l = 1)" if "l < n_lines" for l
    using first_balances_line_calc[OF s _ that] that by auto
  have out: "\<exists>l < n_lines. M ! x ! l = 1" if "x < n_nodes" "seed M node x" for x
    using sd[OF that(1)] that some_line_out[OF m that(1)] by (simp add: source_node_def)
  have nc: "node_calc s ! x = seed M node x" if "x < n_nodes" for x
    using first_balances_node_calc[OF s, of x] that out[OF that] by auto
  have i2: "line_calc s ! l = node_calc s ! x"
    if "l < n_lines" "x < n_nodes" "M ! x ! l = 1" for l x
  proof -
    have "(\<exists>x' < n_nodes. seed M node x' \<and> M ! x' ! l = 1) = seed M node x"
      using start_unique[OF m, of l _ x] c that by blast
    then show ?thesis using lc[OF that(1)] nc[OF that(2)] by simp
  qed
  have i3: "count_list (events s) (NodeAssigned x) = (if node_calc s ! x then 1 else 0)"
    if "x < n_nodes" for x
    using first_balances_count_node[OF s, of x] nc[OF that] that by simp
  have i4: "count_list (events s) (LineAdvanced l) = (if line_calc s ! l then 1 else 0)"
    if "l < n_lines" for l
  proof -
    have u: "length (filter (\<lambda>x. seed M node x \<and> M ! x ! l = 1) [0..<n_nodes]) =
        (if \<exists>a < n_nodes. seed M node a \<and> M ! a ! l = 1 then 1 else 0)"
      by (rule filter_upt_unique) (use start_unique[OF m, of l] c that in blast)
    show ?thesis
      using first_balances_count_line[OF s that] u lc[OF that] by simp
  qed
  have i6: "node_calc s ! x" if "x < n_nodes" "count_list (M ! x) (- 1) = 0" for x
    using nc[OF that(1)] sd[OF that(1)] src that by simp
  show ?thesis
    using s len i2 i3 i4 i6 unfolding prop_inv_def by blast
qed

lemma ready_outcome:
  assumes m: "is_matrix n_nodes n_lines M"
    and fd: "\<forall>x < n_nodes. m_ext node ! x > 0 \<and> count_list (M ! x) (- 1) > 0
               \<longrightarrow> reference_feeder node x"
    and x: "x < n_nodes"
    and r: "node_calc_now M n_lines s x"
  shows "node_balance_outcome M n_lines node x = Inr True"
proof -
  from r have "filter (\<lambda>l. M ! x ! l = - 1 \<and> line_calc s ! l) [0..<n_lines] \<noteq> []"
    by (auto simp: node_calc_now_def Let_def)
  then obtain l where l: "l < n_lines" "M ! x ! l = - 1"
    by (auto simp: filter_empty_conv)
  have pos: "count_list (M ! x) (- 1) > 0"
    using no_line_in[OF m x] l by auto
  have fi: "first_line_in (M ! x) n_lines \<noteq> None"
    using l by (auto simp: first_line_in_def find_None_iff)
  show ?thesis
  proof (cases "m_ext node ! x = 0 \<or> m_ext node ! x < 0")
    case True
    then show ?thesis using fi pos by (auto simp: node_balance_outcome_def Let_def)
  next
    case False
    then have "m_ext node ! x > 0" by simp
    with fd x pos have "reference_feeder node x" by blast
    then show ?thesis using False pos
      by (auto simp: node_balance_outcome_def Let_def reference_feeder_def)
  qed
qed

lemma finite_pipe_edges: "finite (pipe_edges M n_nodes n_lines)"
proof -
  have "pipe_edges M n_nodes n_lines \<subseteq> {..<n_nodes} \<times> {..<n_nodes}"
    by (auto simp: pipe_edges_def)
  then show ?thesis by (rule finite_subset) simp
qed

lemma propagation_round_inv:
  assumes m: "is_matrix n_nodes n_lines M"
    and c: "\<forall>l < n_lines. column_ok (column M l)"
    and ac: "acyclic (pipe_edges M n_nodes n_lines)"
    and fd: "\<forall>x < n_nodes. m_ext node ! x > 0 \<and> count_list (M ! x) (- 1) > 0
               \<longrightarrow> reference_feeder node x"
    and inv: "prop_inv M n_nodes n_lines s"
  shows "\<exists>s'. propagation_round M n_nodes n_lines node s = Inr s' \<and>
              prop_inv M n_nodes n_lines s' \<and>
              (\<forall>x < n_nodes. node_calc s ! x \<longrightarrow> node_calc s' ! x) \<and>
              ((\<exists>x < n_nodes. \<not> node_calc s ! x) \<longrightarrow>
               (\<exists>x < n_nodes. \<not> node_calc s ! x \<and> node_calc s' ! x))"
proof -
  let ?now = "map (node_calc_now M n_lines s) [0..<n_nodes]"
  from inv have len: "length (line_calc s) = n_lines" "length (node_calc s) = n_nodes"
    and i2: "\<And>l x. l < n_lines \<Longrightarrow> x < n_nodes \<Longrightarrow> M ! x ! l = 1 \<Longrightarrow>
               line_calc s ! l = node_calc s ! x"
    and i3: "\<And>x. x < n_nodes \<Longrightarrow>
               count_list (events s) (NodeAssigned x) = (if node_calc s ! x then 1 else 0)"
    and i4: "\<And>l. l < n_lines \<Longrightarrow>
               count_list (events s) (LineAdvanced l) = (if line_calc s ! l then 1 else 0)"
    and i6: "\<And>x. x < n_nodes \<Longrightarrow> count_list (M ! x) (- 1) = 0 \<Longrightarrow> node_calc s ! x"
    unfolding prop_inv_def by blast+
  have now: "?now ! x = node_calc_now M n_lines s x" if "x < n_nodes" for x
    using that by simp
  have okay: "\<forall>x \<in> set [0..<n_nodes]. ?now ! x \<longrightarrow> node_balance_outcome M n_lines node x = Inr True"
    using ready_outcome[OF m fd] now by auto
  from node_balances_ok[OF okay] obtain s1 where
    s1: "node_balances M n_lines node ?now [0..<n_nodes] s = Inr s1" by blast
  have l1: "line_calc s1 = line_calc s" "length (node_calc s1) = n_nodes"
    using node_balances_line_calc[OF s1] len by simp_all
  have n1: "node_calc s1 ! x = (node_calc s ! x \<or> node_calc_now M n_lines s x)"
    if "x < n_nodes" for x
    using node_balances_node_calc[OF s1 okay, of x] that len now[OF that] by auto
  have notnow: "\<not> node_calc s ! x" if "node_calc_now M n_lines s x" for x
    using that by (simp add: node_calc_now_def)
  have c1: "count_list (events s1) (NodeAssigned x) = (if node_calc s1 ! x then 1 else 0)"
    if "x < n_nodes" for x
    using node_balances_count_node[OF s1 okay, of x] i3[OF that] n1[OF that] now[OF that]
      notnow[of x] that by auto
  have c1l: "count_list (events s1) (LineAdvanced l) = count_list (events s) (LineAdvanced l)"
    for l using node_balances_count_line[OF s1] .
  let ?lnow = "map (line_calc_now M n_nodes s1) [0..<n_lines]"
  let ?s' = "line_balances ?lnow [0..<n_lines] s1"
  have r: "propagation_round M n_nodes n_lines node s = Inr ?s'"
    by (simp add: propagation_round_def s1)
  have n2: "node_calc ?s' = node_calc s1" "length (line_calc ?s') = n_lines"
    using line_balances_node_calc[of ?lnow "[0..<n_lines]" s1] l1 len by simp_all
  have l2: "line_calc ?s' ! l = (line_calc s ! l \<or> line_calc_now M n_nodes s1 l)"
    if "l < n_lines" for l
    using line_balances_line_calc[of "[0..<n_lines]" s1 l ?lnow] that l1 len by auto
  have j2: "line_calc ?s' ! l = node_calc ?s' ! x"
    if "l < n_lines" "x < n_nodes" "M ! x ! l = 1" for l x
  proof -
    have "(\<exists>x' < n_nodes. M ! x' ! l = 1 \<and> node_calc s1 ! x') = node_calc s1 ! x"
      using start_unique[OF m, of l _ x] c that by blast
    then have "line_calc_now M n_nodes s1 l = (\<not> line_calc s ! l \<and> node_calc s1 ! x)"
      by (auto simp: line_calc_now_def l1 list_ex_iff)
    then show ?thesis
      using l2[OF that(1)] i2[OF that] n1[OF that(2)] n2 by auto
  qed
  have j3: "count_list (events ?s') (NodeAssigned x) = (if node_calc ?s' ! x then 1 else 0)"
    if "x < n_nodes" for x
    using c1[OF that] n2 by (simp add: line_balances_count_node)
  have j4: "count_list (events ?s') (LineAdvanced l) = (if line_calc ?s' ! l then 1 else 0)"
    if "l < n_lines" for l
  proof -
    have "line_calc_now M n_nodes s1 l \<Longrightarrow> \<not> line_calc s ! l"
      by (simp add: line_calc_now_def l1)
    then show ?thesis
      using line_balances_count_line[of "[0..<n_lines]" ?lnow s1 l] c1l[of l] i4[OF that]
        l2[OF that] that
      by auto
  qed
  have mono: "node_calc ?s' ! x" if "x < n_nodes" "node_calc s ! x" for x
    using n1[OF that(1)] that(2) n2 by simp
  have j6: "node_calc ?s' ! x" if "x < n_nodes" "count_list (M ! x) (- 1) = 0" for x
    using mono[OF that(1) i6[OF that]] .
  have progress: "\<exists>x < n_nodes. \<not> node_calc s ! x \<and> node_calc ?s' ! x"
    if ex: "\<exists>x < n_nodes. \<not> node_calc s ! x"
  proof -
    let ?U = "{x. x < n_nodes \<and> \<not> node_calc s ! x}"
    from ex obtain x0 where "x0 \<in> ?U" by blast
    have wf: "wf (pipe_edges M n_nodes n_lines)"
      using finite_acyclic_wf[OF finite_pipe_edges ac] .
    from wfE_min[OF wf \<open>x0 \<in> ?U\<close>] obtain z where
      z: "z \<in> ?U" and zmin: "\<And>y. (y, z) \<in> pipe_edges M n_nodes n_lines \<Longrightarrow> y \<notin> ?U"
      by blast
    from z have zn: "z < n_nodes" and zc: "\<not> node_calc s ! z" by simp_all
    have "count_list (M ! z) (- 1) \<noteq> 0" using i6[OF zn] zc by blast
    then obtain l0 where l0: "l0 < n_lines" "M ! z ! l0 = - 1"
      using no_line_in[OF m zn] by auto
    have solved: "line_calc s ! l" if "l < n_lines" "M ! z ! l = - 1" for l
    proof -
      from start_exists[OF m] c that(1) obtain y where y: "y < n_nodes" "M ! y ! l = 1"
        by blast
      then have "(y, z) \<in> pipe_edges M n_nodes n_lines"
        using zn that by (auto simp: pipe_edges_def)
      from zmin[OF this] y(1) have "node_calc s ! y" by simp
      then show ?thesis using i2[OF that(1) y] by simp
    qed
    have "filter (\<lambda>l. M ! z ! l = - 1 \<and> \<not> line_calc s ! l) [0..<n_lines] = []"
      using solved by (auto simp: filter_empty_conv)
    moreover have "filter (\<lambda>l. M ! z ! l = - 1 \<and> line_calc s ! l) [0..<n_lines] \<noteq> []"
      using solved[OF l0] l0 by (auto simp: filter_empty_conv)
    ultimately have "node_calc_now M n_lines s z"
      using zc by (simp add: node_calc_now_def Let_def)
    then have "node_calc ?s' ! z" using n1[OF zn] n2 by simp
    then show ?thesis using zn zc by blast
  qed
  have "prop_inv M n_nodes n_lines ?s'"
    unfolding prop_inv_def using n2 l1 j2 j3 j4 j6 by simp
  then show ?thesis using r mono progress by blast
qed

lemma unsolved_decreases:
  "length xs = length ys \<Longrightarrow> \<forall>i < length xs. xs ! i \<longrightarrow> ys ! i \<Longrightarrow>
   \<exists>i < length xs. \<not> xs ! i \<and> ys ! i \<Longrightarrow>
   length (filter Not ys) < length (filter Not xs)"
proof (induction xs ys rule: list_induct2)
  case Nil
  then show ?case by simp
next
  case (Cons x xs y ys)
  have mono: "\<forall>i < length xs. xs ! i \<longrightarrow> ys ! i" using Cons.prems(1) by auto
  have le: "length (filter Not ys) \<le> length (filter Not xs)"
    using Cons.hyps mono
  proof (induction xs ys rule: list_induct2)
    case Nil
    then show ?case by simp
  next
    case (Cons a as b bs)
    have "\<forall>i < length as. as ! i \<longrightarrow> bs ! i" using Cons.prems by auto
    from Cons.IH[OF this] Cons.prems show ?case by auto
  qed
  from Cons.prems(2) obtain i where i: "i < Suc (length xs)" "\<not> (x # xs) ! i" "(y # ys) ! i"
    by auto
  show ?case
  proof (cases i)
    case 0
    with i have "\<not> x" "y" by simp_all
    then show ?thesis using le by simp
  next
    case (Suc j)
    with i have "\<exists>i < length xs. \<not> xs ! i \<and> ys ! i" by auto
    from Cons.IH[OF mono this] Cons.prems(1) show ?thesis by auto
  qed
qed

lemma all_solved:
  assumes m: "is_matrix n_nodes n_lines M"
    and c: "\<forall>l < n_lines. column_ok (column M l)"
    and inv: "prop_inv M n_nodes n_lines s"
    and nodes: "\<forall>x < n_nodes. node_calc s ! x"
  shows "list_all id (line_calc s) \<and> list_all id (node_calc s)"
proof -
  from inv have len: "length (line_calc s) = n_lines" "length (node_calc s) = n_nodes"
    and i2: "\<And>l x. l < n_lines \<Longrightarrow> x < n_nodes \<Longrightarrow> M ! x ! l = 1 \<Longrightarrow>
               line_calc s ! l = node_calc s ! x"
    unfolding prop_inv_def by blast+
  have "line_calc s ! l" if "l < n_lines" for l
  proof -
    from start_exists[OF m] c that obtain y where "y < n_nodes" "M ! y ! l = 1" by blast
    then show ?thesis using i2[OF that] nodes by simp
  qed
  then show ?thesis using nodes len by (simp add: list_all_length)
qed

lemma propagation_loop_terminates:
  assumes m: "is_matrix n_nodes n_lines M"
    and c: "\<forall>l < n_lines. column_ok (column M l)"
    and ac: "acyclic (pipe_edges M n_nodes n_lines)"
    and fd: "\<forall>x < n_nodes. m_ext node ! x > 0 \<and> count_list (M ! x) (- 1) > 0
               \<longrightarrow> reference_feeder node x"
  shows "prop_inv M n_nodes n_lines s \<Longrightarrow>
         \<exists>s'. propagation_loop M n_nodes n_lines node s = Some (Inr s') \<and>
              prop_inv M n_nodes n_lines s' \<and>
              list_all id (line_calc s') \<and> list_all id (node_calc s')"
proof (induction "length (filter Not (node_calc s))" arbitrary: s rule: less_induct)
  case less
  from propagation_round_inv[OF m c ac fd less.prems] obtain s1 where
    r: "propagation_round M n_nodes n_lines node s = Inr s1" and
    inv1: "prop_inv M n_nodes n_lines s1" and
    mono: "\<forall>x < n_nodes. node_calc s ! x \<longrightarrow> node_calc s1 ! x" and
    prog: "(\<exists>x < n_nodes. \<not> node_calc s ! x) \<longrightarrow>
           (\<exists>x < n_nodes. \<not> node_calc s ! x \<and> node_calc s1 ! x)"
    by blast
  show ?case
  proof (cases "list_all id (line_calc s1) \<and> list_all id (node_calc s1)")
    case True
    then have "propagation_loop M n_nodes n_lines node s = Some (Inr s1)"
      by (subst propagation_loop.simps) (simp add: r)
    then show ?thesis using inv1 True by blast
  next
    case False
    have len: "length (node_calc s) = n_nodes" "length (node_calc s1) = n_nodes"
      using less.prems inv1 by (simp_all add: prop_inv_def)
    have "\<exists>x < n_nodes. \<not> node_calc s ! x"
    proof (rule ccontr)
      assume "\<not> (\<exists>x < n_nodes. \<not> node_calc s ! x)"
      then have "\<forall>x < n_nodes. node_calc s1 ! x" using mono by blast
      from all_solved[OF m c inv1 this] False show False by blast
    qed
    with prog have "\<exists>x < n_nodes. \<not> node_calc s ! x \<and> node_calc s1 ! x" by blast
    then have "length (filter Not (node_calc s1)) < length (filter Not (node_calc s))"
      using unsolved_decreases[of "node_calc s" "node_calc s1"] len mono by simp
    from less.hyps[OF this inv1] obtain s' where
      s': "propagation_loop M n_nodes n_lines node s1 = Some (Inr s')"
          "prop_inv M n_nodes n_lines s'"
          "list_all id (line_calc s')" "list_all id (node_calc s')"
      by blast
    have "propagation_loop M n_nodes n_lines node s = Some (Inr s')"
      using False s'(1) by (subst propagation_loop.simps) (auto simp: r)
    then show ?thesis using s' by blast
  qed
qed

lemma sources_from_reachability:
  assumes m: "is_matrix n_nodes n_lines M"
    and reach: "\<forall>x_node < n_nodes. \<exists>y < n_nodes. source_node M node y \<and>
           (y, x_node) \<in> (pipe_edges M n_nodes n_lines)\<^sup>*"
  shows "\<forall>x < n_nodes. count_list (M ! x) (- 1) = 0 \<longrightarrow> source_node M node x"
proof (intro allI impI)
  fix x assume x: "x < n_nodes" and z: "count_list (M ! x) (- 1) = 0"
  from reach x obtain y where y: "source_node M node y"
    "(y, x) \<in> (pipe_edges M n_nodes n_lines)\<^sup>*" by blast
  have "y = x"
  proof (rule ccontr)
    assume "y \<noteq> x"
    with y(2) obtain w where "(w, x) \<in> pipe_edges M n_nodes n_lines"
      by (metis rtranclE)
    then obtain l where "l < n_lines" "M ! x ! l = - 1" by (auto simp: pipe_edges_def)
    with z no_line_in[OF m x] show False by blast
  qed
  with y(1) show "source_node M node x" by simp
qed

text \<open>
  C4. Let the coupling matrix be well formed (one start and one end node per pipe) and its
  directed graph acyclic, let every node be reachable from a source node, and let the only
  nodes with a positive external mass flow and an incoming pipe be the reference feeder
  (the single feeder). Then the forerun part of a thermal substep terminates without
  raising, every node's temperature is assigned exactly once and every pipe's segment
  array is advanced exactly once.
\<close>

theorem forerun_propagation_terminates:
  assumes "is_matrix n_nodes n_lines M"
    and "\<forall>x_line < n_lines. column_ok (column M x_line)"
    and "acyclic (pipe_edges M n_nodes n_lines)"
    and "\<forall>x_node < n_nodes. \<exists>y < n_nodes. source_node M node y \<and>
           (y, x_node) \<in> (pipe_edges M n_nodes n_lines)\<^sup>*"
    and "\<forall>x_node < n_nodes. m_ext node ! x_node > 0 \<and> count_list (M ! x_node) (- 1) > 0
           \<longrightarrow> reference_feeder node x_node"
  shows "\<exists>s. forerun_substep M n_nodes n_lines node = Some (Inr s) \<and>
             (\<forall>x_node < n_nodes. count_list (events s) (NodeAssigned x_node) = 1) \<and>
             (\<forall>x_line < n_lines. count_list (events s) (LineAdvanced x_line) = 1)"
proof -
  note src = sources_from_reachability[OF assms(1,4)]
  from first_balances_inv[OF assms(1,2) src] obtain s0 where
    s0: "first_balances_forerun M n_lines node [0..<n_nodes]
           \<lparr>line_calc = replicate n_lines False, node_calc = replicate n_nodes False,
            events = []\<rparr> = Inr s0"
    and inv0: "prop_inv M n_nodes n_lines s0" by blast
  from propagation_loop_terminates[OF assms(1,2,3,5) inv0] obtain s where
    s: "propagation_loop M n_nodes n_lines node s0 = Some (Inr s)"
       "prop_inv M n_nodes n_lines s"
       "list_all id (line_calc s)" "list_all id (node_calc s)"
    by blast
  have "forerun_substep M n_nodes n_lines node = Some (Inr s)"
    by (simp add: forerun_substep_def s0 s(1))
  moreover have "count_list (events s) (NodeAssigned x) = 1" if "x < n_nodes" for x
    using s(2,4) that by (simp add: prop_inv_def list_all_length)
  moreover have "count_list (events s) (LineAdvanced l) = 1" if "l < n_lines" for l
    using s(2,3) that by (simp add: prop_inv_def list_all_length)
  ultimately show ?thesis by blast
qed

theorem forerun_propagation_terminates_witness:
  "is_matrix 4 3 [[1, 0, 0], [- 1, 1, 1], [0, - 1, 0], [0, 0, - 1]] \<and>
   column_ok (column [[1, 0, 0], [- 1, 1, 1], [0, - 1, 0], [0, 0, - 1]] 0) \<and>
   column_ok (column [[1, 0, 0], [- 1, 1, 1], [0, - 1, 0], [0, 0, - 1]] 1) \<and>
   column_ok (column [[1, 0, 0], [- 1, 1, 1], [0, - 1, 0], [0, 0, - 1]] 2) \<and>
   acyclic (pipe_edges [[1, 0, 0], [- 1, 1, 1], [0, - 1, 0], [0, 0, - 1]] 4 3) \<and>
   source_node [[1, 0, 0], [- 1, 1, 1], [0, - 1, 0], [0, 0, - 1]]
      \<lparr>m_ext = [3, - 1, - 1, - 1], feeder = [Some ''F'', None, None, None], ref_nodes = [0],
       V_dot_feed = [Some 3, None, None, None], temp_flow_feed = [Some 90, None, None, None],
       Q_dot_sim = [None, Some 10, Some 10, Some 10],
       V_dot_sim = [None, Some 1, Some 1, Some 1]\<rparr> 0 \<and>
   (\<exists>s. forerun_substep [[1, 0, 0], [- 1, 1, 1], [0, - 1, 0], [0, 0, - 1]] 4 3
      \<lparr>m_ext = [3, - 1, - 1, - 1], feeder = [Some ''F'', None, None, None], ref_nodes = [0],
       V_dot_feed = [Some 3, None, None, None], temp_flow_feed = [Some 90, None, None, None],
       Q_dot_sim = [None, Some 10, Some 10, Some 10],
       V_dot_sim = [None, Some 1, Some 1, Some 1]\<rparr> = Some (Inr s) \<and>
      count_list (events s) (NodeAssigned 0) = 1 \<and>
      count_list (events s) (NodeAssigned 1) = 1 \<and>
      count_list (events s) (NodeAssigned 2) = 1 \<and>
      count_list (events s) (NodeAssigned 3) = 1 \<and>
      count_list (events s) (LineAdvanced 0) = 1 \<and>
      count_list (events s) (LineAdvanced 1) = 1 \<and>
      count_list (events s) (LineAdvanced 2) = 1)"
proof -
  let ?M = "[[1, 0, 0], [- 1, 1, 1], [0, - 1, 0], [0, 0, - 1]] :: matrix"
  let ?node = "\<lparr>m_ext = [3, - 1, - 1, - 1], feeder = [Some ''F'', None, None, None],
       ref_nodes = [0],
       V_dot_feed = [Some 3, None, None, None], temp_flow_feed = [Some 90, None, None, None],
       Q_dot_sim = [None, Some 10, Some 10, Some 10],
       V_dot_sim = [None, Some 1, Some 1, Some 1]\<rparr>"
  have lt4: "(x < (4::nat)) = (x = 0 \<or> x = 1 \<or> x = 2 \<or> x = 3)" for x by auto
  have lt3: "(x < (3::nat)) = (x = 0 \<or> x = 1 \<or> x = 2)" for x by auto
  have h1: "is_matrix 4 3 ?M" by (simp add: is_matrix_def)
  have c0: "column_ok (column ?M 0)" by (simp add: column_ok_def column_def)
  have c1: "column_ok (column ?M 1)" by (simp add: column_ok_def column_def)
  have c2: "column_ok (column ?M 2)" by (simp add: column_ok_def column_def)
  have h2: "\<forall>x_line < 3. column_ok (column ?M x_line)"
    using c0 c1 c2 by (auto simp: lt3)
  have sub: "pipe_edges ?M 4 3 \<subseteq> {(0, 1), (1, 2), (1, 3)}"
    unfolding pipe_edges_def lt4 lt3 by (auto simp: nth_Cons')
  have "acyclic {(0::nat, 1::nat), (1, 2), (1, 3)}"
    by (rule acyclicI_order[where f = "\<lambda>x. 4 - x"]) auto
  then have h3: "acyclic (pipe_edges ?M 4 3)"
    using sub by (rule acyclic_subset)
  have s0: "source_node ?M ?node 0" by (simp add: source_node_def)
  have e01: "(0, 1) \<in> pipe_edges ?M 4 3" by (simp add: pipe_edges_def) (rule exI[of _ 0], simp)
  have e12: "(1, 2) \<in> pipe_edges ?M 4 3" by (simp add: pipe_edges_def) (rule exI[of _ 1], simp)
  have e13: "(1, 3) \<in> pipe_edges ?M 4 3" by (simp add: pipe_edges_def) (rule exI[of _ 2], simp)
  have r0: "(0, 0) \<in> (pipe_edges ?M 4 3)\<^sup>*" by simp
  have r1: "(0, 1) \<in> (pipe_edges ?M 4 3)\<^sup>*" using e01 by (rule r_into_rtrancl)
  have r2: "(0, 2) \<in> (pipe_edges ?M 4 3)\<^sup>*" using r1 e12 by (rule rtrancl_into_rtrancl)
  have r3: "(0, 3) \<in> (pipe_edges ?M 4 3)\<^sup>*" using r1 e13 by (rule rtrancl_into_rtrancl)
  have h4: "\<forall>x_node < 4. \<exists>y < 4. source_node ?M ?node y \<and>
           (y, x_node) \<in> (pipe_edges ?M 4 3)\<^sup>*"
  proof (intro allI impI)
    fix x :: nat assume "x < 4"
    then have "(0, x) \<in> (pipe_edges ?M 4 3)\<^sup>*" using r0 r1 r2 r3 by (auto simp: lt4)
    then show "\<exists>y < 4. source_node ?M ?node y \<and> (y, x) \<in> (pipe_edges ?M 4 3)\<^sup>*"
      using s0 by (intro exI[of _ 0]) simp
  qed
  have h5: "\<forall>x_node < 4. m_ext ?node ! x_node > 0 \<and> count_list (?M ! x_node) (- 1) > 0
           \<longrightarrow> reference_feeder ?node x_node"
    by (auto simp: lt4)
  from forerun_propagation_terminates[OF h1 h2 h3 h4 h5] obtain s where
    "forerun_substep ?M 4 3 ?node = Some (Inr s)"
    "\<forall>x_node < 4. count_list (events s) (NodeAssigned x_node) = 1"
    "\<forall>x_line < 3. count_list (events s) (LineAdvanced x_line) = 1"
    by blast
  then have "forerun_substep ?M 4 3 ?node = Some (Inr s) \<and>
      count_list (events s) (NodeAssigned 0) = 1 \<and>
      count_list (events s) (NodeAssigned 1) = 1 \<and>
      count_list (events s) (NodeAssigned 2) = 1 \<and>
      count_list (events s) (NodeAssigned 3) = 1 \<and>
      count_list (events s) (LineAdvanced 0) = 1 \<and>
      count_list (events s) (LineAdvanced 1) = 1 \<and>
      count_list (events s) (LineAdvanced 2) = 1"
    by simp
  then show ?thesis using h1 c0 c1 c2 h3 s0 by blast
qed

end
